theory Spec2Isabelle
  imports Complex_Main "HOL-Library.AList"
begin

section \<open>glob-diff: a shallow embedding of \<open>src/glob-diff.ts\<close>\<close>

text \<open>
  The module exports one asynchronous operation, \<open>globDiff\<close>, built from four helpers:
  \<open>getGlobDiffSnapshot\<close> (the snapshot builder), \<open>getGlobDiffChanges\<close> (the differ),
  \<open>loadGlobDiffSnapshot\<close> and \<open>isValidGlobDiffSnapshot\<close>.  The embedding keeps these
  names.  Everything the code obtains from outside the module (the file system, \<open>globby\<close>,
  \<open>hasha\<close>, \<open>path.resolve\<close>, \<open>JSON\<close>) is a field of a record of functions, so that the
  theorems hold for every behaviour of the outside world; every call that touches the file
  system is written to a list of events that the model returns next to the result.
\<close>

subsection \<open>JavaScript values\<close>

text \<open>
  A JavaScript \<open>number\<close> is only ever compared with \<open>===\<close> here, never computed with.
  The finite doubles are taken as the rationals they denote (both zeros denote 0, and
  \<open>+0 === -0\<close> holds); \<open>NaN\<close> is kept apart because \<open>NaN === NaN\<close> is false.
\<close>

datatype number = NaN | PosInfinity | NegInfinity | Finite rat

definition strict_equals_number :: "number \<Rightarrow> number \<Rightarrow> bool" where
  "strict_equals_number a b = (a \<noteq> NaN \<and> b \<noteq> NaN \<and> a = b)"

text \<open>
  The values that can reach the validation function: what \<open>JSON.parse\<close> returns, and
  what an untyped caller can pass for the \<open>snapshot\<close> option.  An object is the list of
  its own enumerable properties in enumeration order.
\<close>

datatype jsval =
    JUndefined
  | JNull
  | JBoolean bool
  | JNumber number
  | JString string
  | JArray "jsval list"
  | JObject "(string \<times> jsval) list"

fun typeof :: "jsval \<Rightarrow> string" where
  "typeof JUndefined = ''undefined''"
| "typeof JNull = ''object''"
| "typeof (JBoolean b) = ''boolean''"
| "typeof (JNumber n) = ''number''"
| "typeof (JString s) = ''string''"
| "typeof (JArray elems) = ''object''"
| "typeof (JObject props) = ''object''"

text \<open>Truthiness, as used by \<open>&&\<close>, \<open>||\<close>, \<open>!\<close> and \<open>if\<close>.\<close>

fun truthy :: "jsval \<Rightarrow> bool" where
  "truthy JUndefined = False"
| "truthy JNull = False"
| "truthy (JBoolean b) = b"
| "truthy (JNumber n) = (n \<noteq> NaN \<and> n \<noteq> Finite 0)"
| "truthy (JString s) = (s \<noteq> [])"
| "truthy (JArray elems) = True"
| "truthy (JObject props) = True"

text \<open>Decimal rendering of an array index, the property name of an array element.\<close>

definition digit_char :: "nat \<Rightarrow> char" where
  "digit_char d = ''0123456789'' ! d"

fun string_of_nat :: "nat \<Rightarrow> string" where
  "string_of_nat n =
     (if n < 10 then [digit_char n]
      else string_of_nat (n div 10) @ [digit_char (n mod 10)])"

declare string_of_nat.simps [simp del]

text \<open>
  \<open>Object.entries\<close>.  On \<open>null\<close> and \<open>undefined\<close> JavaScript throws a TypeError; the
  code calls it only after its \<open>typeof\<close> and \<open>null\<close> checks, so those equations are
  never used.
\<close>

fun Object_entries :: "jsval \<Rightarrow> (string \<times> jsval) list" where
  "Object_entries (JObject props) = props"
| "Object_entries (JArray elems) = zip (map string_of_nat [0..<length elems]) elems"
| "Object_entries (JString s) =
     zip (map string_of_nat [0..<length s]) (map (\<lambda>c. JString [c]) s)"
| "Object_entries v = []"

text \<open>
  The \<open>in\<close> operator and property access, on own properties.  The inherited properties
  of \<open>Object.prototype\<close> and \<open>Array.prototype\<close> are left out: none of them is named
  \<open>hash\<close> or \<open>mtimeMs\<close>, the only names the code asks for.  On a primitive \<open>in\<close>
  throws; the code applies it only to a non-null value of type \<open>object\<close>.
\<close>

fun has_property :: "string \<Rightarrow> jsval \<Rightarrow> bool" where
  "has_property key (JObject props) = (key \<in> fst ` set props)"
| "has_property key (JArray elems) =
     (key = ''length'' \<or> key \<in> set (map string_of_nat [0..<length elems]))"
| "has_property key v = False"

fun get_property :: "jsval \<Rightarrow> string \<Rightarrow> jsval" where
  "get_property (JObject props) key =
     (case map_of props key of Some v \<Rightarrow> v | None \<Rightarrow> JUndefined)"
| "get_property (JArray elems) key =
     (if key = ''length'' then JNumber (Finite (of_nat (length elems)))
      else case map_of (Object_entries (JArray elems)) key of
             Some v \<Rightarrow> v | None \<Rightarrow> JUndefined)"
| "get_property v key = JUndefined"

subsection \<open>The data model of the module\<close>

datatype GlobDiffPatterns = Pattern string | Patterns "string list"

datatype GlobDiffChangeType = Create | Delete | Update

record GlobDiffChange =
  type :: GlobDiffChangeType
  filePath :: string

record GlobDiffFileSnapshot =
  hash :: string
  mtimeMs :: number

text \<open>
  A snapshot is an object indexed by file path: the list of its entries in the order in
  which \<open>Object.keys\<close> enumerates them.  \<open>snapshot[filePath]\<close> is \<open>map_of\<close>.
\<close>

type_synonym GlobDiffSnapshot = "(string \<times> GlobDiffFileSnapshot) list"

text \<open>
  \<open>undefined\<close> (an option left out) is \<open>None\<close>.  The \<open>snapshot\<close> option is kept as a raw
  value: it is the one option the code checks at run time.
\<close>

record GlobDiffOptions =
  alwaysHash :: "bool option"
  cwd :: "string option"
  patterns :: "GlobDiffPatterns option"
  files :: "string list option"
  saveSnapshot :: "bool option"
  snapshot :: jsval
  snapshotFilePath :: "string option"

record GlobDiffResult =
  snapshot :: GlobDiffSnapshot
  changes :: "GlobDiffChange list"

definition defaultGlobDiffSnapshotFileName :: string where
  "defaultGlobDiffSnapshotFileName = ''.glob-diff.json''"

text \<open>
  A variable of the source whose name is also a field of one of these records is renamed
  in the equations below (a field name is a constant, which an equation cannot bind): the
  array \<open>changes\<close> is \<open>out\<close>, a \<open>filePath\<close> is \<open>fpath\<close>, a \<open>snapshot\<close> is \<open>snap\<close>, a
  \<open>snapshotFilePath\<close> is \<open>snapshotPath\<close>.
\<close>

subsection \<open>Snapshot shape validation\<close>

text \<open>The \<open>for\<close> loop of \<open>isValidGlobDiffSnapshot\<close> over \<open>Object.entries(snapshot)\<close>.\<close>

fun isValidGlobDiffSnapshot_entries :: "(string \<times> jsval) list \<Rightarrow> bool" where
  "isValidGlobDiffSnapshot_entries [] = True"
| "isValidGlobDiffSnapshot_entries ((fpath, fileSnapshot) # rest) =
     (if typeof (JString fpath) \<noteq> ''string'' \<or>
         typeof fileSnapshot \<noteq> ''object'' \<or>
         fileSnapshot = JNull \<or>
         \<not> has_property ''hash'' fileSnapshot \<or>
         \<not> has_property ''mtimeMs'' fileSnapshot \<or>
         typeof (get_property fileSnapshot ''hash'') \<noteq> ''string'' \<or>
         typeof (get_property fileSnapshot ''mtimeMs'') \<noteq> ''number''
      then False
      else isValidGlobDiffSnapshot_entries rest)"

definition isValidGlobDiffSnapshot :: "jsval \<Rightarrow> bool" where
  "isValidGlobDiffSnapshot snap =
     (if typeof snap \<noteq> ''object'' \<or> snap = JNull then False
      else isValidGlobDiffSnapshot_entries (Object_entries snap))"

text \<open>
  The type guard \<open>snapshot is GlobDiffSnapshot\<close>: after a successful validation the code
  reads the value at the type \<open>GlobDiffSnapshot\<close>.  It reads nothing but the keys and,
  of each entry, \<open>hash\<close> and \<open>mtimeMs\<close>.
\<close>

definition as_GlobDiffFileSnapshot :: "jsval \<Rightarrow> GlobDiffFileSnapshot" where
  "as_GlobDiffFileSnapshot fileSnapshot =
     \<lparr>hash = (case get_property fileSnapshot ''hash'' of JString s \<Rightarrow> s | _ \<Rightarrow> []),
      mtimeMs = (case get_property fileSnapshot ''mtimeMs'' of JNumber n \<Rightarrow> n | _ \<Rightarrow> NaN)\<rparr>"

definition as_GlobDiffSnapshot :: "jsval \<Rightarrow> GlobDiffSnapshot" where
  "as_GlobDiffSnapshot v =
     map (\<lambda>(fpath, fileSnapshot). (fpath, as_GlobDiffFileSnapshot fileSnapshot))
       (Object_entries v)"

text \<open>The value that a typed snapshot is, as \<open>JSON.stringify\<close> sees it.\<close>

definition jsval_of_GlobDiffSnapshot :: "GlobDiffSnapshot \<Rightarrow> jsval" where
  "jsval_of_GlobDiffSnapshot s =
     JObject (map (\<lambda>(fpath, fileSnapshot).
        (fpath, JObject [(''hash'', JString (hash fileSnapshot)),
                            (''mtimeMs'', JNumber (mtimeMs fileSnapshot))])) s)"

subsection \<open>The differ\<close>

text \<open>
  \<open>new Set(keys)\<close>: the distinct elements in order of first insertion, which is also the
  order in which \<open>for ... of\<close> visits them.
\<close>

fun Set_of :: "'a list \<Rightarrow> 'a list" where
  "Set_of [] = []"
| "Set_of (x # xs) = x # filter (\<lambda>y. y \<noteq> x) (Set_of xs)"

definition Object_keys :: "GlobDiffSnapshot \<Rightarrow> string list" where
  "Object_keys s = map fst s"

text \<open>The first loop of \<open>getGlobDiffChanges\<close>; \<open>changes.push\<close> appends to \<open>out\<close>.\<close>

fun deleteLoop :: "string list \<Rightarrow> string list \<Rightarrow> GlobDiffChange list \<Rightarrow> GlobDiffChange list" where
  "deleteLoop [] nextFilePaths out = out"
| "deleteLoop (previousFilePath # rest) nextFilePaths out =
     deleteLoop rest nextFilePaths
       (if previousFilePath \<notin> set nextFilePaths
        then out @ [\<lparr>type = Delete, filePath = previousFilePath\<rparr>]
        else out)"

text \<open>The second loop; \<open>x?.hash\<close> of a missing entry is \<open>undefined\<close>, here \<open>None\<close>.\<close>

fun createUpdateLoop ::
  "string list \<Rightarrow> string list \<Rightarrow> GlobDiffSnapshot \<Rightarrow> GlobDiffSnapshot \<Rightarrow>
   GlobDiffChange list \<Rightarrow> GlobDiffChange list" where
  "createUpdateLoop [] previousFilePaths previousSnapshot nextSnapshot out = out"
| "createUpdateLoop (nextFilePath # rest) previousFilePaths previousSnapshot nextSnapshot out =
     createUpdateLoop rest previousFilePaths previousSnapshot nextSnapshot
       (if nextFilePath \<notin> set previousFilePaths
        then out @ [\<lparr>type = Create, filePath = nextFilePath\<rparr>]
        else if map_option hash (map_of previousSnapshot nextFilePath) \<noteq>
                map_option hash (map_of nextSnapshot nextFilePath)
        then out @ [\<lparr>type = Update, filePath = nextFilePath\<rparr>]
        else out)"

definition getGlobDiffChanges :: "GlobDiffSnapshot \<Rightarrow> GlobDiffSnapshot \<Rightarrow> GlobDiffChange list" where
  "getGlobDiffChanges previousSnapshot nextSnapshot =
     (let out = [];
          previousFilePaths = Set_of (Object_keys previousSnapshot);
          nextFilePaths = Set_of (Object_keys nextSnapshot);
          out = deleteLoop previousFilePaths nextFilePaths out;
          out = createUpdateLoop nextFilePaths previousFilePaths
                  previousSnapshot nextSnapshot out
      in out)"

subsection \<open>The outside world\<close>

datatype io_error = ENOENT | EACCES | EISDIR | OtherIOError string

text \<open>
  What the module throws: its three own errors (named after their messages), the
  SyntaxError of \<open>JSON.parse\<close>, the TypeError of a property read on \<open>undefined\<close>, and
  whatever a file-system call rejects with, which the code passes on unchanged.
\<close>

datatype error =
    InvalidSnapshot
  | InvalidSnapshotFile
  | PatternsOrFilesMustBeProvided
  | JSONSyntaxError
  | TypeError
  | IOError io_error

text \<open>The calls that touch the file system, in the order in which they are made.\<close>

datatype io_event =
    ReadFile string
  | Stat string
  | HashFile string
  | Globby GlobDiffPatterns
  | WriteFile string string

text \<open>
  The imported functions.  \<open>fs_stat\<close> is \<open>fs.promises.stat\<close> followed by \<open>.mtimeMs\<close>, the
  one field of the Stats object that is read; \<open>hashFile\<close> is hasha's \<open>hashFile\<close> with
  \<open>{algorithm: 'md5'}\<close>; \<open>globby\<close> is called with \<open>{absolute: true}\<close>; \<open>fs_readFile\<close>
  reads with encoding utf8; \<open>JSON_parse\<close> is \<open>None\<close> where \<open>JSON.parse\<close> throws.  The
  functions do not change during one call of \<open>globDiff\<close>: the files are taken to stay as
  they are while it runs.
\<close>

record host =
  path_resolve :: "string \<Rightarrow> string"
  globby :: "GlobDiffPatterns \<Rightarrow> io_error + string list"
  fs_stat :: "string \<Rightarrow> io_error + number"
  hashFile :: "string \<Rightarrow> io_error + string"
  fs_readFile :: "string \<Rightarrow> io_error + string"
  fs_writeFile :: "string \<Rightarrow> string \<Rightarrow> io_error + unit"
  JSON_parse :: "string \<Rightarrow> jsval option"
  JSON_stringify :: "GlobDiffSnapshot \<Rightarrow> string"

text \<open>
  An asynchronous function returns what its promise settles with (\<open>Inl\<close>: rejected) and
  the file-system calls it has made.
\<close>

type_synonym 'a io = "(error + 'a) \<times> io_event list"

subsection \<open>Loading the previous snapshot\<close>

definition loadGlobDiffSnapshot :: "host \<Rightarrow> string \<Rightarrow> GlobDiffSnapshot io" where
  "loadGlobDiffSnapshot h snapshotPath =
     (let snapshotFileContent =
            (case fs_readFile h snapshotPath of
               Inl e \<Rightarrow> None
             | Inr content \<Rightarrow> Some content)
      in case snapshotFileContent of
           None \<Rightarrow> (Inr [], [ReadFile snapshotPath])
         | Some content \<Rightarrow>
             if content = [] then (Inr [], [ReadFile snapshotPath])
             else (case JSON_parse h content of
                     None \<Rightarrow> (Inl JSONSyntaxError, [ReadFile snapshotPath])
                   | Some snap \<Rightarrow>
                       if \<not> isValidGlobDiffSnapshot snap
                       then (Inl InvalidSnapshotFile, [ReadFile snapshotPath])
                       else (Inr (as_GlobDiffSnapshot snap), [ReadFile snapshotPath])))"

subsection \<open>The snapshot builder\<close>

text \<open>
  \<open>entry?.mtimeMs === m\<close> for an entry that may be missing: \<open>undefined\<close> is not \<open>===\<close> to
  a number.
\<close>

definition optional_mtimeMs_equals :: "GlobDiffFileSnapshot option \<Rightarrow> number \<Rightarrow> bool" where
  "optional_mtimeMs_equals entry m =
     (case entry of
        None \<Rightarrow> False
      | Some previousFile \<Rightarrow> strict_equals_number (mtimeMs previousFile) m)"

text \<open>
  The callback that \<open>getGlobDiffSnapshot\<close> maps over \<open>filePaths\<close> has two parts.  Up to
  its first \<open>await\<close> it only calls \<open>fs.promises.stat(filePath)\<close>.  \<open>snapshotFile_resumed\<close>
  is the rest, entered when the stat has settled with \<open>statResult\<close>, without the final
  assignment to \<open>snapshot[filePath]\<close>: it returns the entry to assign and the calls made
  after the stat.  In the first branch \<open>previousSnapshot[filePath].hash\<close> would throw a
  TypeError on a missing entry; the condition of the branch excludes that.
\<close>

definition snapshotFile_resumed ::
  "host \<Rightarrow> bool option \<Rightarrow> GlobDiffSnapshot \<Rightarrow> string \<Rightarrow> io_error + number \<Rightarrow>
   GlobDiffFileSnapshot io" where
  "snapshotFile_resumed h alwaysHashOpt previousSnapshot fpath statResult =
     (case statResult of
        Inl e \<Rightarrow> (Inl (IOError e), [])
      | Inr fileStats_mtimeMs \<Rightarrow>
          if alwaysHashOpt \<noteq> Some True \<and>
             optional_mtimeMs_equals (map_of previousSnapshot fpath) fileStats_mtimeMs
          then
            (case map_of previousSnapshot fpath of
               Some previousFile \<Rightarrow>
                 (Inr \<lparr>hash = hash previousFile, mtimeMs = fileStats_mtimeMs\<rparr>, [])
             | None \<Rightarrow> (Inl TypeError, []))
          else
            (case hashFile h fpath of
               Inl e \<Rightarrow> (Inl (IOError e), [HashFile fpath])
             | Inr fileHash \<Rightarrow>
                 (Inr \<lparr>hash = fileHash, mtimeMs = fileStats_mtimeMs\<rparr>, [HashFile fpath])))"

text \<open>The callback as a whole: the stat, then the rest.\<close>

definition snapshotFile :: "host \<Rightarrow> bool option \<Rightarrow> GlobDiffSnapshot \<Rightarrow> string \<Rightarrow> GlobDiffFileSnapshot io" where
  "snapshotFile h alwaysHashOpt previousSnapshot fpath =
     (case snapshotFile_resumed h alwaysHashOpt previousSnapshot fpath (fs_stat h fpath) of
        (r, events) \<Rightarrow> (r, Stat fpath # events))"

text \<open>
  \<open>Promise.all(filePaths.map(callback))\<close>.  \<open>map\<close> starts every callback at once, so the
  stats of all paths are called first, in the order of \<open>filePaths\<close>, whatever happens
  later.  The order in which the callbacks are resumed is not fixed by the code.  The
  model takes the run in which they are resumed and finished one after the other in the
  order of \<open>filePaths\<close> (\<open>snapshotAll_resumed\<close>): an entry is assigned before the next
  callback goes on, and the promise rejects with the first failure in that order, the
  later callbacks having called nothing but their stat by then.  \<open>snapshot[filePath] =
  entry\<close> is \<open>AList.update\<close>: it replaces the entry of a key that is there and appends a
  new key.
\<close>

fun snapshotAll_resumed ::
  "host \<Rightarrow> bool option \<Rightarrow> GlobDiffSnapshot \<Rightarrow> string list \<Rightarrow> GlobDiffSnapshot \<Rightarrow> GlobDiffSnapshot io" where
  "snapshotAll_resumed h alwaysHashOpt previousSnapshot [] snap = (Inr snap, [])"
| "snapshotAll_resumed h alwaysHashOpt previousSnapshot (fpath # rest) snap =
     (case snapshotFile_resumed h alwaysHashOpt previousSnapshot fpath (fs_stat h fpath) of
        (Inl e, events) \<Rightarrow> (Inl e, events)
      | (Inr fileSnapshot, events) \<Rightarrow>
          (case snapshotAll_resumed h alwaysHashOpt previousSnapshot rest
                  (AList.update fpath fileSnapshot snap) of
             (r, events') \<Rightarrow> (r, events @ events')))"

definition snapshotAll ::
  "host \<Rightarrow> bool option \<Rightarrow> GlobDiffSnapshot \<Rightarrow> string list \<Rightarrow> GlobDiffSnapshot \<Rightarrow> GlobDiffSnapshot io" where
  "snapshotAll h alwaysHashOpt previousSnapshot filePaths snap =
     (case snapshotAll_resumed h alwaysHashOpt previousSnapshot filePaths snap of
        (r, events) \<Rightarrow> (r, map Stat filePaths @ events))"

text \<open>
  The options object of \<open>getGlobDiffSnapshot\<close> is passed field by field.  \<open>cwd\<close> is
  received and never read.  An array is truthy, so \<open>options.files\<close> decides by being
  there; a pattern is falsy when it is the empty string.
\<close>

fun truthy_patterns :: "GlobDiffPatterns option \<Rightarrow> bool" where
  "truthy_patterns None = False"
| "truthy_patterns (Some (Pattern s)) = (s \<noteq> [])"
| "truthy_patterns (Some (Patterns ps)) = True"

text \<open>
  The \<open>filePaths\<close> of \<open>getGlobDiffSnapshot\<close>: the given files, each through
  \<open>path.resolve\<close>, or else what \<open>globby\<close> finds for \<open>options.patterns || []\<close>.
\<close>

definition resolveFilePaths ::
  "host \<Rightarrow> string list option \<Rightarrow> GlobDiffPatterns option \<Rightarrow> string list io" where
  "resolveFilePaths h filesOpt patternsOpt =
     (let pats =
            (case patternsOpt of
               Some p \<Rightarrow> if truthy_patterns patternsOpt then p else Patterns []
             | None \<Rightarrow> Patterns [])
      in case filesOpt of
           Some fs \<Rightarrow> (Inr (map (path_resolve h) fs), [])
         | None \<Rightarrow>
             (case globby h pats of
                Inl e \<Rightarrow> (Inl (IOError e), [Globby pats])
              | Inr found \<Rightarrow> (Inr found, [Globby pats])))"

definition getGlobDiffSnapshot ::
  "host \<Rightarrow> bool option \<Rightarrow> string option \<Rightarrow> string list option \<Rightarrow> GlobDiffPatterns option \<Rightarrow>
   GlobDiffSnapshot option \<Rightarrow> GlobDiffSnapshot io" where
  "getGlobDiffSnapshot h alwaysHashOpt cwdOpt filesOpt patternsOpt snapshotOpt =
     (case resolveFilePaths h filesOpt patternsOpt of
        (Inl e, events) \<Rightarrow> (Inl e, events)
      | (Inr filePaths, events) \<Rightarrow>
          (let snap = [];
               previousSnapshot = (case snapshotOpt of Some s \<Rightarrow> s | None \<Rightarrow> [])
           in case snapshotAll h alwaysHashOpt previousSnapshot filePaths snap of
                (r, events') \<Rightarrow> (r, events @ events')))"

subsection \<open>The main operation\<close>

text \<open>
  The first argument is either patterns or an options object; \<open>isGlobDiffPatterns\<close> tells
  them apart by \<open>typeof x === 'string' || Array.isArray(x)\<close>.
\<close>

datatype GlobDiffArgument = PatternsArg GlobDiffPatterns | OptionsArg GlobDiffOptions

fun isGlobDiffPatterns :: "GlobDiffArgument \<Rightarrow> bool" where
  "isGlobDiffPatterns (PatternsArg (Pattern s)) = True"
| "isGlobDiffPatterns (PatternsArg (Patterns ps)) = True"
| "isGlobDiffPatterns (OptionsArg opts) = False"

text \<open>The options object with no property, \<open>{}\<close>.\<close>

definition no_options :: GlobDiffOptions where
  "no_options =
     \<lparr>alwaysHash = None, cwd = None, patterns = None, files = None, saveSnapshot = None,
      GlobDiffOptions.snapshot = JUndefined, snapshotFilePath = None\<rparr>"

text \<open>
  The two readings of the first argument after the test (type narrowing); the second
  equation of each is never used.
\<close>

fun as_GlobDiffPatterns :: "GlobDiffArgument \<Rightarrow> GlobDiffPatterns" where
  "as_GlobDiffPatterns (PatternsArg p) = p"
| "as_GlobDiffPatterns (OptionsArg opts) = Patterns []"

fun as_GlobDiffOptions :: "GlobDiffArgument \<Rightarrow> GlobDiffOptions" where
  "as_GlobDiffOptions (OptionsArg opts) = opts"
| "as_GlobDiffOptions (PatternsArg p) = no_options"

text \<open>
  \<open>{ patterns: patternsOrOptions, ...maybeOptions }\<close>.  The spread comes second, so a
  \<open>patterns\<close> property of \<open>maybeOptions\<close> would win.  The second argument is taken at
  its declared type \<open>Omit<GlobDiffOptions, 'patterns'>\<close>, which has no such property, so
  \<open>patterns opts = None\<close> says that the key is absent.  The record has no means to hold
  an own property \<open>patterns: undefined\<close>, which that type excludes and which the spread
  would copy as well.
\<close>

definition spread_options :: "GlobDiffPatterns \<Rightarrow> GlobDiffOptions option \<Rightarrow> GlobDiffOptions" where
  "spread_options p maybeOptions =
     (case maybeOptions of
        None \<Rightarrow> no_options\<lparr>patterns := Some p\<rparr>
      | Some opts \<Rightarrow>
          (case patterns opts of
             None \<Rightarrow> opts\<lparr>patterns := Some p\<rparr>
           | Some q \<Rightarrow> opts))"

text \<open>
  \<open>globDiff\<close> is modelled in four pieces, in the order of its text: the constant
  \<open>options\<close> (lines 94 to 96), the constant \<open>snapshotFilePath\<close> (lines 98 to 100), the
  part that obtains the previous snapshot (lines 102 to 110, in \<open>globDiff\<close> below), and
  the rest, from the test of \<open>patterns\<close> and \<open>files\<close> to the \<open>return\<close> (lines 112 to
  133, \<open>globDiff_run\<close>).
\<close>

definition globDiff_options :: "GlobDiffArgument \<Rightarrow> GlobDiffOptions option \<Rightarrow> GlobDiffOptions" where
  "globDiff_options patternsOrOptions maybeOptions =
     (if isGlobDiffPatterns patternsOrOptions
      then spread_options (as_GlobDiffPatterns patternsOrOptions) maybeOptions
      else as_GlobDiffOptions patternsOrOptions)"

text \<open>\<open>options.snapshotFilePath || defaultGlobDiffSnapshotFileName\<close>: the empty string is falsy.\<close>

definition globDiff_snapshotFilePath :: "host \<Rightarrow> GlobDiffOptions \<Rightarrow> string" where
  "globDiff_snapshotFilePath h options =
     path_resolve h
       (case snapshotFilePath options of
          Some s \<Rightarrow> if s \<noteq> [] then s else defaultGlobDiffSnapshotFileName
        | None \<Rightarrow> defaultGlobDiffSnapshotFileName)"

definition globDiff_run ::
  "host \<Rightarrow> GlobDiffOptions \<Rightarrow> string \<Rightarrow> GlobDiffSnapshot \<Rightarrow> GlobDiffResult io" where
  "globDiff_run h options snapshotPath previousSnapshot =
     (if \<not> truthy_patterns (patterns options) \<and> files options = None
      then (Inl PatternsOrFilesMustBeProvided, [])
      else
        (case getGlobDiffSnapshot h (alwaysHash options) (cwd options)
                (files options) (patterns options) (Some previousSnapshot) of
           (Inl e, events) \<Rightarrow> (Inl e, events)
         | (Inr snap, events) \<Rightarrow>
             (let out = getGlobDiffChanges previousSnapshot snap
              in if saveSnapshot options \<noteq> Some False
                 then
                   (case fs_writeFile h snapshotPath (JSON_stringify h snap) of
                      Inl e \<Rightarrow>
                        (Inl (IOError e),
                         events @ [WriteFile snapshotPath (JSON_stringify h snap)])
                    | Inr u \<Rightarrow>
                        (Inr \<lparr>snapshot = snap, changes = out\<rparr>,
                         events @ [WriteFile snapshotPath (JSON_stringify h snap)]))
                 else (Inr \<lparr>snapshot = snap, changes = out\<rparr>, events))))"

definition globDiff :: "host \<Rightarrow> GlobDiffArgument \<Rightarrow> GlobDiffOptions option \<Rightarrow> GlobDiffResult io" where
  "globDiff h patternsOrOptions maybeOptions =
     (let options = globDiff_options patternsOrOptions maybeOptions;
          snapshotPath = globDiff_snapshotFilePath h options;
          supplied = GlobDiffOptions.snapshot options
      in if truthy supplied \<and> \<not> isValidGlobDiffSnapshot supplied
         then (Inl InvalidSnapshot, [])
         else
           (case (if \<not> truthy supplied then loadGlobDiffSnapshot h snapshotPath
                  else (Inr (as_GlobDiffSnapshot supplied), [])) of
              (Inl e, events) \<Rightarrow> (Inl e, events)
            | (Inr previousSnapshot, events) \<Rightarrow>
                (case globDiff_run h options snapshotPath previousSnapshot of
                   (r, events') \<Rightarrow> (r, events @ events'))))"

subsection \<open>Auxiliary notions for the statements\<close>

text \<open>
  A well-shaped snapshot entry: a plain object with a string under \<open>hash\<close> and a number
  under \<open>mtimeMs\<close>.
\<close>

fun well_shaped_entry :: "jsval \<Rightarrow> bool" where
  "well_shaped_entry (JObject props) =
     ((case map_of props ''hash'' of Some (JString s) \<Rightarrow> True | _ \<Rightarrow> False) \<and>
      (case map_of props ''mtimeMs'' of Some (JNumber n) \<Rightarrow> True | _ \<Rightarrow> False))"
| "well_shaped_entry v = False"

text \<open>What one round of the second loop of the differ pushes for the path \<open>p\<close>.\<close>

definition change_for ::
  "string list \<Rightarrow> GlobDiffSnapshot \<Rightarrow> GlobDiffSnapshot \<Rightarrow> string \<Rightarrow> GlobDiffChange list" where
  "change_for prevs previous nxt p =
     (if p \<notin> set prevs then [\<lparr>type = Create, filePath = p\<rparr>]
      else if map_option hash (map_of previous p) \<noteq> map_option hash (map_of nxt p)
      then [\<lparr>type = Update, filePath = p\<rparr>] else [])"

text \<open>
  The condition under which the previous hash is to be reused, in the words of the
  specification: \<open>alwaysHash\<close> is not set, the previous snapshot has an entry for the
  path, and its \<open>mtimeMs\<close> is \<open>===\<close> to the one just observed.
\<close>

definition reuses :: "bool option \<Rightarrow> GlobDiffSnapshot \<Rightarrow> string \<Rightarrow> number \<Rightarrow> bool" where
  "reuses alwaysHashOpt previousSnapshot fpath m =
     (alwaysHashOpt \<noteq> Some True \<and>
      (case map_of previousSnapshot fpath of
         None \<Rightarrow> False
       | Some previousFile \<Rightarrow> strict_equals_number (mtimeMs previousFile) m))"

text \<open>
  Concrete inputs for the instances below: a working directory \<open>/work\<close> with two files,
  no snapshot file, and a \<open>JSON\<close> that knows the one text that is written there (the
  quotation marks of the text are left out).
\<close>

definition example_built :: GlobDiffSnapshot where
  "example_built =
     [(''/work/a.txt'', \<lparr>hash = ''aaa'', mtimeMs = Finite 100\<rparr>),
      (''/work/b.txt'', \<lparr>hash = ''bbb'', mtimeMs = Finite 200\<rparr>)]"

definition example_text :: string where
  "example_text = ''{/work/a.txt:{hash:aaa,mtimeMs:100},/work/b.txt:{hash:bbb,mtimeMs:200}}''"

definition example_host :: host where
  "example_host =
     \<lparr>path_resolve =
        (\<lambda>p. case p of
               [] \<Rightarrow> ''/work''
             | c # cs \<Rightarrow> if c = CHR ''/'' then p else ''/work/'' @ p),
      globby = (\<lambda>pats. Inr [''/work/a.txt'', ''/work/b.txt'']),
      fs_stat = (\<lambda>p. if p = ''/work/a.txt'' then Inr (Finite 100)
                     else if p = ''/work/b.txt'' then Inr (Finite 200) else Inl ENOENT),
      hashFile = (\<lambda>p. if p = ''/work/a.txt'' then Inr ''aaa''
                      else if p = ''/work/b.txt'' then Inr ''bbb'' else Inl ENOENT),
      fs_readFile = (\<lambda>p. Inl ENOENT),
      fs_writeFile = (\<lambda>p content. Inr ()),
      JSON_parse =
        (\<lambda>content. if content = example_text
                    then Some (jsval_of_GlobDiffSnapshot example_built)
                    else if content = ''{}'' then Some (JObject []) else None),
      JSON_stringify = (\<lambda>s. if s = example_built then example_text else ''{}'')\<rparr>"

definition example_previous :: GlobDiffSnapshot where
  "example_previous =
     [(''/work/a.txt'', \<lparr>hash = ''old'', mtimeMs = Finite 100\<rparr>),
      (''/work/b.txt'', \<lparr>hash = ''bbb'', mtimeMs = Finite 150\<rparr>),
      (''/work/c.txt'', \<lparr>hash = ''ccc'', mtimeMs = Finite 300\<rparr>)]"

text \<open>
  Variants of the example: the snapshot file cannot be read; it is empty; it holds an
  entry without \<open>mtimeMs\<close>; it holds what a first run has written.
\<close>

definition unreadable_host :: host where
  "unreadable_host = example_host\<lparr>fs_readFile := (\<lambda>p. Inl EACCES)\<rparr>"

definition empty_file_host :: host where
  "empty_file_host = example_host\<lparr>fs_readFile := (\<lambda>p. Inr [])\<rparr>"

definition malformed_file_host :: host where
  "malformed_file_host =
     example_host
       \<lparr>fs_readFile := (\<lambda>p. Inr ''{/work/a.txt:{hash:aaa}}''),
        JSON_parse :=
          (\<lambda>content. Some (JObject [(''/work/a.txt'', JObject [(''hash'', JString ''aaa'')])]))\<rparr>"

definition second_run_host :: host where
  "second_run_host =
     example_host
       \<lparr>fs_readFile := (fs_readFile example_host)(''/work/.glob-diff.json'' := Inr example_text)\<rparr>"

section \<open>Properties\<close>

subsection \<open>Validation\<close>

lemma typeof_string_iff: "typeof v = ''string'' \<longleftrightarrow> (\<exists>s. v = JString s)"
  by (cases v) auto

lemma typeof_number_iff: "typeof v = ''number'' \<longleftrightarrow> (\<exists>n. v = JNumber n)"
  by (cases v) auto

lemma last_string_of_nat: "last (string_of_nat n) \<in> set ''0123456789''"
proof -
  have "last (string_of_nat n) = digit_char (n mod 10)"
    by (subst string_of_nat.simps) simp
  moreover have "n mod 10 < length ''0123456789''" by simp
  ultimately show ?thesis unfolding digit_char_def using nth_mem by metis
qed

lemma string_of_nat_neq_hash: "string_of_nat n \<noteq> ''hash''"
proof
  assume "string_of_nat n = ''hash''"
  then have "last (string_of_nat n) = CHR ''h''" by simp
  then show False using last_string_of_nat[of n] by simp
qed

lemma array_has_no_hash: "\<not> has_property ''hash'' (JArray elems)"
proof
  assume "has_property ''hash'' (JArray elems)"
  then obtain i where "string_of_nat i = ''hash''" by auto
  then show False using string_of_nat_neq_hash by blast
qed

lemma entry_check:
  "(typeof (JString k) \<noteq> ''string'' \<or> typeof e \<noteq> ''object'' \<or> e = JNull \<or>
    \<not> has_property ''hash'' e \<or> \<not> has_property ''mtimeMs'' e \<or>
    typeof (get_property e ''hash'') \<noteq> ''string'' \<or>
    typeof (get_property e ''mtimeMs'') \<noteq> ''number'') \<longleftrightarrow> \<not> well_shaped_entry e"
proof (cases e)
  case (JArray elems)
  then show ?thesis using array_has_no_hash by simp
next
  case (JObject props)
  then show ?thesis
    by (auto simp: typeof_string_iff typeof_number_iff map_of_eq_None_iff[symmetric]
             split: option.splits jsval.splits)
qed simp_all

lemma entries_valid_iff:
  "isValidGlobDiffSnapshot_entries es \<longleftrightarrow> (\<forall>(k, e) \<in> set es. well_shaped_entry e)"
proof (induction es)
  case Nil
  then show ?case by simp
next
  case (Cons a es)
  obtain k e where a: "a = (k, e)" by (cases a)
  show ?case unfolding a using Cons.IH entry_check[of k e] by simp
qed

lemma ball_zip_snd:
  "length ks = length xs \<Longrightarrow>
   (\<forall>(k, e) \<in> set (zip ks xs). P e) \<longleftrightarrow> (\<forall>e \<in> set xs. P e)"
  by (induction ks xs rule: list_induct2) auto

lemma valid_truthy: "isValidGlobDiffSnapshot v \<Longrightarrow> truthy v"
  by (cases v) (simp_all add: isValidGlobDiffSnapshot_def)

text \<open>
  C3, as the code has it.  Validation returns false for every value that is not of type
  \<open>object\<close> (\<open>undefined\<close>, a boolean, a number, a string) and for \<open>null\<close>; for an object
  it returns true exactly when every entry is well shaped, that is, a plain object with
  a string under \<open>hash\<close> and a number under \<open>mtimeMs\<close>.  An array is not rejected as
  such: it is validated like the object of its elements, and is accepted exactly when
  every element is a well-shaped entry.
\<close>

theorem isValidGlobDiffSnapshot_shape:
  "isValidGlobDiffSnapshot v =
     (case v of
        JObject props \<Rightarrow> (\<forall>(k, e) \<in> set props. well_shaped_entry e)
      | JArray elems \<Rightarrow> (\<forall>e \<in> set elems. well_shaped_entry e)
      | _ \<Rightarrow> False)"
proof (cases v)
  case (JArray elems)
  have "(\<forall>(k, e) \<in> set (zip (map string_of_nat [0..<length elems]) elems). well_shaped_entry e)
     \<longleftrightarrow> (\<forall>e \<in> set elems. well_shaped_entry e)"
    by (rule ball_zip_snd) simp
  then show ?thesis using JArray by (simp add: isValidGlobDiffSnapshot_def entries_valid_iff)
qed (simp_all add: isValidGlobDiffSnapshot_def entries_valid_iff)

text \<open>
  An instance: a well-shaped object is accepted; an entry whose \<open>mtimeMs\<close> is a string
  and an array holding \<open>null\<close> are rejected.
\<close>

theorem isValidGlobDiffSnapshot_shape_witness:
  "isValidGlobDiffSnapshot
     (JObject [(''/a'', JObject [(''hash'', JString ''h1''), (''mtimeMs'', JNumber (Finite 1))])]) \<and>
   \<not> isValidGlobDiffSnapshot
     (JObject [(''/a'', JObject [(''hash'', JString ''h1''), (''mtimeMs'', JString ''1'')])]) \<and>
   \<not> isValidGlobDiffSnapshot (JArray [JNull])"
  using isValidGlobDiffSnapshot_shape
          [of "JObject [(''/a'', JObject [(''hash'', JString ''h1''), (''mtimeMs'', JNumber (Finite 1))])]"]
        isValidGlobDiffSnapshot_shape
          [of "JObject [(''/a'', JObject [(''hash'', JString ''h1''), (''mtimeMs'', JString ''1'')])]"]
        isValidGlobDiffSnapshot_shape [of "JArray [JNull]"]
  by simp

text \<open>
  C3 as stated fails on arrays: the empty array and an array of one well-shaped entry
  pass the validation.
\<close>

theorem isValidGlobDiffSnapshot_array_counterexample:
  "isValidGlobDiffSnapshot (JArray []) \<and>
   isValidGlobDiffSnapshot
     (JArray [JObject [(''hash'', JString ''h1''), (''mtimeMs'', JNumber (Finite 1))]])"
  by (simp add: isValidGlobDiffSnapshot_def)

subsection \<open>The differ\<close>

lemma set_Set_of: "set (Set_of xs) = set xs"
  by (induction xs) auto

lemma distinct_Set_of: "distinct (Set_of xs)"
  by (induction xs) (auto simp: set_Set_of)

lemma deleteLoop_eq:
  "deleteLoop ks nexts out =
     out @ map (\<lambda>p. \<lparr>type = Delete, filePath = p\<rparr>) (filter (\<lambda>p. p \<notin> set nexts) ks)"
  by (induction ks arbitrary: out) auto

lemma createUpdateLoop_eq:
  "createUpdateLoop ks prevs previous nxt out =
     out @ concat (map (change_for prevs previous nxt) ks)"
  by (induction ks arbitrary: out) (auto simp: change_for_def)

lemma count_deletes:
  "distinct ks \<Longrightarrow>
   count_list (map (\<lambda>p. \<lparr>type = Delete, filePath = p\<rparr>) (filter Q ks)) \<lparr>type = t, filePath = p\<rparr> =
     (if t = Delete \<and> p \<in> set ks \<and> Q p then 1 else 0)"
  by (induction ks) auto

lemma count_changes:
  "distinct ks \<Longrightarrow>
   count_list (concat (map (change_for prevs previous nxt) ks)) \<lparr>type = t, filePath = p\<rparr> =
     (if p \<in> set ks \<and> change_for prevs previous nxt p = [\<lparr>type = t, filePath = p\<rparr>]
      then 1 else 0)"
  by (induction ks) (auto simp: change_for_def)

lemma getGlobDiffChanges_eq:
  "getGlobDiffChanges previous nxt =
     map (\<lambda>p. \<lparr>type = Delete, filePath = p\<rparr>)
       (filter (\<lambda>p. p \<notin> set (Object_keys nxt)) (Set_of (Object_keys previous))) @
     concat (map (change_for (Set_of (Object_keys previous)) previous nxt)
               (Set_of (Object_keys nxt)))"
  by (simp add: getGlobDiffChanges_def Let_def deleteLoop_eq createUpdateLoop_eq set_Set_of)

lemma getGlobDiffChanges_unchanged:
  assumes "set (Object_keys s') = set (Object_keys s)"
      and "\<forall>p \<in> set (Object_keys s). map_option hash (map_of s' p) = map_option hash (map_of s p)"
  shows "getGlobDiffChanges s s' = []"
proof -
  have "filter (\<lambda>p. p \<notin> set (Object_keys s')) (Set_of (Object_keys s)) = []"
    using assms(1) by (simp add: set_Set_of filter_empty_conv)
  moreover have "change_for (Set_of (Object_keys s)) s s' p = []" if "p \<in> set (Set_of (Object_keys s'))" for p
    using that assms by (simp add: change_for_def set_Set_of)
  ultimately show ?thesis unfolding getGlobDiffChanges_eq by simp
qed

text \<open>
  C2.  For every pair of snapshots and every path \<open>p\<close>, the list of changes holds the
  record \<open>{delete, p}\<close> once if \<open>p\<close> is a key of the previous snapshot and not of the
  next, and not at all otherwise; \<open>{create, p}\<close> once if \<open>p\<close> is a key of the next and
  not of the previous; \<open>{update, p}\<close> once if \<open>p\<close> is a key of both and the two hashes
  differ, whatever the two \<open>mtimeMs\<close> are; and the list is a run of delete records
  followed by records that are not deletes.
\<close>

theorem getGlobDiffChanges_records:
  "count_list (getGlobDiffChanges previous nxt) \<lparr>type = Delete, filePath = p\<rparr> =
     (if p \<in> set (Object_keys previous) \<and> p \<notin> set (Object_keys nxt) then 1 else 0) \<and>
   count_list (getGlobDiffChanges previous nxt) \<lparr>type = Create, filePath = p\<rparr> =
     (if p \<in> set (Object_keys nxt) \<and> p \<notin> set (Object_keys previous) then 1 else 0) \<and>
   count_list (getGlobDiffChanges previous nxt) \<lparr>type = Update, filePath = p\<rparr> =
     (if p \<in> set (Object_keys nxt) \<and> p \<in> set (Object_keys previous) \<and>
         map_option hash (map_of previous p) \<noteq> map_option hash (map_of nxt p)
      then 1 else 0) \<and>
   (\<exists>deletes others.
      getGlobDiffChanges previous nxt = deletes @ others \<and>
      (\<forall>c \<in> set deletes. type c = Delete) \<and>
      (\<forall>c \<in> set others. type c \<noteq> Delete))"
proof -
  let ?ds = "map (\<lambda>p. \<lparr>type = Delete, filePath = p\<rparr>)
       (filter (\<lambda>p. p \<notin> set (Object_keys nxt)) (Set_of (Object_keys previous)))"
  let ?os = "concat (map (change_for (Set_of (Object_keys previous)) previous nxt)
                       (Set_of (Object_keys nxt)))"
  have eq: "getGlobDiffChanges previous nxt = ?ds @ ?os" by (rule getGlobDiffChanges_eq)
  have d: "count_list ?ds \<lparr>type = t, filePath = p\<rparr> =
      (if t = Delete \<and> p \<in> set (Object_keys previous) \<and> p \<notin> set (Object_keys nxt)
       then 1 else 0)" for t
    using count_deletes[OF distinct_Set_of, of "\<lambda>p. p \<notin> set (Object_keys nxt)"
            "Object_keys previous" t p]
    by (simp add: set_Set_of)
  have c: "count_list ?os \<lparr>type = t, filePath = p\<rparr> =
     (if p \<in> set (Object_keys nxt) \<and>
         change_for (Set_of (Object_keys previous)) previous nxt p = [\<lparr>type = t, filePath = p\<rparr>]
      then 1 else 0)" for t
    using count_changes[OF distinct_Set_of, of _ previous nxt "Object_keys nxt" t p]
    by (simp add: set_Set_of)
  have 1: "count_list (getGlobDiffChanges previous nxt) \<lparr>type = Delete, filePath = p\<rparr> =
     (if p \<in> set (Object_keys previous) \<and> p \<notin> set (Object_keys nxt) then 1 else 0)"
    unfolding eq count_list_append d c by (simp add: change_for_def)
  have 2: "count_list (getGlobDiffChanges previous nxt) \<lparr>type = Create, filePath = p\<rparr> =
     (if p \<in> set (Object_keys nxt) \<and> p \<notin> set (Object_keys previous) then 1 else 0)"
    unfolding eq count_list_append d c by (simp add: change_for_def set_Set_of)
  have 3: "count_list (getGlobDiffChanges previous nxt) \<lparr>type = Update, filePath = p\<rparr> =
     (if p \<in> set (Object_keys nxt) \<and> p \<in> set (Object_keys previous) \<and>
         map_option hash (map_of previous p) \<noteq> map_option hash (map_of nxt p)
      then 1 else 0)"
    unfolding eq count_list_append d c by (simp add: change_for_def set_Set_of)
  have "\<forall>c \<in> set ?ds. type c = Delete" by auto
  moreover have "\<forall>c \<in> set ?os. type c \<noteq> Delete"
    by (auto simp: change_for_def split: if_splits)
  ultimately have 4: "\<exists>deletes others.
      getGlobDiffChanges previous nxt = deletes @ others \<and>
      (\<forall>c \<in> set deletes. type c = Delete) \<and>
      (\<forall>c \<in> set others. type c \<noteq> Delete)"
    using eq by blast
  from 1 2 3 4 show ?thesis by blast
qed

text \<open>
  An instance: \<open>/a\<close> is gone, \<open>/c\<close> is new, \<open>/d\<close> has another hash, and \<open>/b\<close> has only
  another \<open>mtimeMs\<close>.
\<close>

theorem getGlobDiffChanges_records_witness:
  "getGlobDiffChanges
       [(''/a'', \<lparr>hash = ''h1'', mtimeMs = Finite 1\<rparr>), (''/b'', \<lparr>hash = ''h2'', mtimeMs = Finite 2\<rparr>),
        (''/d'', \<lparr>hash = ''h4'', mtimeMs = Finite 4\<rparr>)]
       [(''/b'', \<lparr>hash = ''h2'', mtimeMs = Finite 7\<rparr>), (''/c'', \<lparr>hash = ''h3'', mtimeMs = Finite 3\<rparr>),
        (''/d'', \<lparr>hash = ''h5'', mtimeMs = Finite 4\<rparr>)] =
     [\<lparr>type = Delete, filePath = ''/a''\<rparr>, \<lparr>type = Create, filePath = ''/c''\<rparr>,
      \<lparr>type = Update, filePath = ''/d''\<rparr>] \<and>
   count_list (getGlobDiffChanges
       [(''/a'', \<lparr>hash = ''h1'', mtimeMs = Finite 1\<rparr>), (''/b'', \<lparr>hash = ''h2'', mtimeMs = Finite 2\<rparr>),
        (''/d'', \<lparr>hash = ''h4'', mtimeMs = Finite 4\<rparr>)]
       [(''/b'', \<lparr>hash = ''h2'', mtimeMs = Finite 7\<rparr>), (''/c'', \<lparr>hash = ''h3'', mtimeMs = Finite 3\<rparr>),
        (''/d'', \<lparr>hash = ''h5'', mtimeMs = Finite 4\<rparr>)]) \<lparr>type = Update, filePath = ''/d''\<rparr> = 1"
  using getGlobDiffChanges_records
     [of "[(''/a'', \<lparr>hash = ''h1'', mtimeMs = Finite 1\<rparr>), (''/b'', \<lparr>hash = ''h2'', mtimeMs = Finite 2\<rparr>),
        (''/d'', \<lparr>hash = ''h4'', mtimeMs = Finite 4\<rparr>)]"
       "[(''/b'', \<lparr>hash = ''h2'', mtimeMs = Finite 7\<rparr>), (''/c'', \<lparr>hash = ''h3'', mtimeMs = Finite 3\<rparr>),
        (''/d'', \<lparr>hash = ''h5'', mtimeMs = Finite 4\<rparr>)]" "''/d''"]
  by (simp add: getGlobDiffChanges_def Object_keys_def)

subsection \<open>The snapshot builder\<close>

lemma snapshotFile_reused:
  "fs_stat h p = Inr m \<Longrightarrow> ah \<noteq> Some True \<Longrightarrow> map_of prev p = Some e \<Longrightarrow>
   strict_equals_number (mtimeMs e) m \<Longrightarrow>
   snapshotFile h ah prev p = (Inr \<lparr>hash = hash e, mtimeMs = m\<rparr>, [Stat p])"
  by (simp add: snapshotFile_def snapshotFile_resumed_def optional_mtimeMs_equals_def)

lemma snapshotFile_hashed:
  "fs_stat h p = Inr m \<Longrightarrow>
   \<not> (ah \<noteq> Some True \<and> (\<exists>e. map_of prev p = Some e \<and> strict_equals_number (mtimeMs e) m)) \<Longrightarrow>
   snapshotFile h ah prev p =
     (case hashFile h p of
        Inl e \<Rightarrow> Inl (IOError e)
      | Inr d \<Rightarrow> Inr \<lparr>hash = d, mtimeMs = m\<rparr>, [Stat p, HashFile p])"
  by (auto simp: snapshotFile_def snapshotFile_resumed_def optional_mtimeMs_equals_def
           split: option.splits sum.splits)

lemma snapshotFile_events:
  "snd (snapshotFile h ah prev p) = [Stat p] \<or> snd (snapshotFile h ah prev p) = [Stat p, HashFile p]"
  by (auto simp: snapshotFile_def snapshotFile_resumed_def optional_mtimeMs_equals_def
           split: option.splits sum.splits)

lemma snapshotFile_events_other:
  "q \<noteq> p \<Longrightarrow> HashFile q \<notin> set (snd (snapshotFile h ah prev p))"
  using snapshotFile_events[of h ah prev p] by auto

lemma snapshotFile_mtimeMs:
  "fs_stat h p = Inr m \<Longrightarrow> fst (snapshotFile h ah prev p) = Inr f \<Longrightarrow> mtimeMs f = m"
  by (auto simp: snapshotFile_def snapshotFile_resumed_def optional_mtimeMs_equals_def
           split: option.splits sum.splits if_splits)

lemma snapshotFile_hash_event:
  "fs_stat h p = Inr m \<Longrightarrow>
   HashFile p \<in> set (snd (snapshotFile h ah prev p)) \<longleftrightarrow> \<not> reuses ah prev p m"
  by (auto simp: snapshotFile_def snapshotFile_resumed_def optional_mtimeMs_equals_def reuses_def
           split: option.splits sum.splits)

lemma snapshotFile_ok:
  "fs_stat h p = Inr m \<Longrightarrow> reuses ah prev p m \<or> hashFile h p = Inr d \<Longrightarrow>
   \<exists>f. fst (snapshotFile h ah prev p) = Inr f"
  by (auto simp: snapshotFile_def snapshotFile_resumed_def optional_mtimeMs_equals_def reuses_def
           split: option.splits)

lemma snapshotFile_resumed_fst:
  "fst (snapshotFile_resumed h ah prev p (fs_stat h p)) = fst (snapshotFile h ah prev p)"
  by (simp add: snapshotFile_def split: prod.splits)

lemma snapshotFile_resumed_snd:
  "Stat p # snd (snapshotFile_resumed h ah prev p (fs_stat h p)) = snd (snapshotFile h ah prev p)"
  by (simp add: snapshotFile_def split: prod.splits)

lemma snapshotFile_resumed_events:
  "set (snd (snapshotFile_resumed h ah prev p (fs_stat h p))) \<subseteq> {HashFile p}"
  using snapshotFile_events[of h ah prev p] snapshotFile_resumed_snd[of p h ah prev] by auto

lemma snapshotAll_resumed_Inr:
  "snapshotAll_resumed h ah prev ps snap = (Inr s, ev) \<Longrightarrow>
     (\<forall>p \<in> set ps. \<exists>f. fst (snapshotFile h ah prev p) = Inr f \<and> map_of s p = Some f) \<and>
     (\<forall>p. p \<notin> set ps \<longrightarrow> map_of s p = map_of snap p) \<and>
     ev = concat (map (\<lambda>p. snd (snapshotFile_resumed h ah prev p (fs_stat h p))) ps)"
proof (induction ps arbitrary: snap ev)
  case Nil
  then show ?case by simp
next
  case (Cons p ps)
  from Cons.prems obtain f e1 where
    f: "snapshotFile_resumed h ah prev p (fs_stat h p) = (Inr f, e1)"
    by (auto split: prod.splits sum.splits)
  with Cons.prems obtain e2 where
    rec: "snapshotAll_resumed h ah prev ps (AList.update p f snap) = (Inr s, e2)"
    and ev: "ev = e1 @ e2"
    by (auto split: prod.splits)
  have ff: "fst (snapshotFile h ah prev p) = Inr f"
    using f snapshotFile_resumed_fst[of h ah prev p] by simp
  note IH = Cons.IH[OF rec]
  have a: "\<exists>g. fst (snapshotFile h ah prev q) = Inr g \<and> map_of s q = Some g"
    if "q \<in> set (p # ps)" for q
  proof (cases "q \<in> set ps")
    case True
    then show ?thesis using IH by blast
  next
    case False
    then have "q = p" using that by simp
    moreover have "map_of s p = map_of (AList.update p f snap) p" using IH False \<open>q = p\<close> by blast
    ultimately show ?thesis using ff by (simp add: update_conv')
  qed
  have b: "map_of s q = map_of snap q" if "q \<notin> set (p # ps)" for q
  proof -
    have "map_of s q = map_of (AList.update p f snap) q" using IH that by simp
    then show ?thesis using that by (simp add: update_conv')
  qed
  have c: "ev = concat (map (\<lambda>p. snd (snapshotFile_resumed h ah prev p (fs_stat h p))) (p # ps))"
    using IH ev f by simp
  from a b c show ?case by blast
qed

lemma snapshotAll_resumed_keys:
  "snapshotAll_resumed h ah prev ps snap = (Inr s, ev) \<Longrightarrow>
     set (map fst s) = set (map fst snap) \<union> set ps \<and>
     (distinct (map fst snap) \<longrightarrow> distinct (map fst s))"
proof (induction ps arbitrary: snap ev)
  case Nil
  then show ?case by simp
next
  case (Cons p ps)
  from Cons.prems obtain f e1 where
    f: "snapshotFile_resumed h ah prev p (fs_stat h p) = (Inr f, e1)"
    by (auto split: prod.splits sum.splits)
  with Cons.prems obtain e2 where
    rec: "snapshotAll_resumed h ah prev ps (AList.update p f snap) = (Inr s, e2)"
    by (auto split: prod.splits)
  have k: "set (map fst (AList.update p f snap)) = insert p (set (map fst snap))"
    by (auto simp: update_keys)
  have d: "distinct (map fst snap) \<Longrightarrow> distinct (map fst (AList.update p f snap))"
    by (rule distinct_update)
  from Cons.IH[OF rec] k d show ?case by auto
qed

lemma snapshotAll_resumed_total:
  "(\<forall>p \<in> set ps. \<exists>f. fst (snapshotFile h ah prev p) = Inr f) \<Longrightarrow>
   \<exists>s ev. snapshotAll_resumed h ah prev ps snap = (Inr s, ev)"
proof (induction ps arbitrary: snap)
  case Nil
  then show ?case by simp
next
  case (Cons p ps)
  from Cons.prems obtain f where "fst (snapshotFile h ah prev p) = Inr f" by auto
  then obtain e1 where f: "snapshotFile_resumed h ah prev p (fs_stat h p) = (Inr f, e1)"
    using snapshotFile_resumed_fst[of h ah prev p] by (metis prod.collapse)
  from Cons obtain s ev where
    "snapshotAll_resumed h ah prev ps (AList.update p f snap) = (Inr s, ev)"
    by (metis list.set_intros(2))
  with f show ?case by simp
qed

lemma snapshotAll_resumed_cong:
  "(\<forall>p \<in> set ps. fst (snapshotFile h ah prev p) = fst (snapshotFile h' ah' prev' p)) \<Longrightarrow>
   fst (snapshotAll_resumed h ah prev ps snap) = fst (snapshotAll_resumed h' ah' prev' ps snap)"
proof (induction ps arbitrary: snap)
  case Nil
  then show ?case by simp
next
  case (Cons p ps)
  obtain r e1 where 1: "snapshotFile_resumed h ah prev p (fs_stat h p) = (r, e1)"
    by (cases "snapshotFile_resumed h ah prev p (fs_stat h p)")
  obtain r' e1' where 2: "snapshotFile_resumed h' ah' prev' p (fs_stat h' p) = (r', e1')"
    by (cases "snapshotFile_resumed h' ah' prev' p (fs_stat h' p)")
  from Cons.prems 1 2 have rr: "r' = r"
    using snapshotFile_resumed_fst[of h ah prev p] snapshotFile_resumed_fst[of h' ah' prev' p]
    by simp
  have IH: "fst (snapshotAll_resumed h ah prev ps sn) = fst (snapshotAll_resumed h' ah' prev' ps sn)"
    for sn
    using Cons.IH Cons.prems by simp
  show ?case
  proof (cases r)
    case (Inl e)
    then show ?thesis using 1 2 rr by simp
  next
    case (Inr f)
    then show ?thesis using 1 2 rr IH[of "AList.update p f snap"]
      by (auto split: prod.splits)
  qed
qed

lemma snapshotAll_resumed_events:
  "set (snd (snapshotAll_resumed h ah prev ps snap)) \<subseteq> HashFile ` set ps"
proof (induction ps arbitrary: snap)
  case Nil
  then show ?case by simp
next
  case (Cons p ps)
  obtain r e1 where 1: "snapshotFile_resumed h ah prev p (fs_stat h p) = (r, e1)"
    by (cases "snapshotFile_resumed h ah prev p (fs_stat h p)")
  have e1: "set e1 \<subseteq> {HashFile p}" using snapshotFile_resumed_events[of h ah prev p] 1 by simp
  show ?case
  proof (cases r)
    case (Inl e)
    then show ?thesis using 1 e1 by auto
  next
    case (Inr f)
    obtain r2 e2 where 2: "snapshotAll_resumed h ah prev ps (AList.update p f snap) = (r2, e2)"
      by (cases "snapshotAll_resumed h ah prev ps (AList.update p f snap)")
    have "set e2 \<subseteq> HashFile ` set ps" using Cons.IH[of "AList.update p f snap"] 2 by simp
    then show ?thesis using 1 2 Inr e1 by auto
  qed
qed

lemma snapshotAll_fst:
  "fst (snapshotAll h ah prev ps snap) = fst (snapshotAll_resumed h ah prev ps snap)"
  by (simp add: snapshotAll_def split: prod.splits)

lemma snapshotAll_snd:
  "snd (snapshotAll h ah prev ps snap) = map Stat ps @ snd (snapshotAll_resumed h ah prev ps snap)"
  by (simp add: snapshotAll_def split: prod.splits)

lemma snapshotAll_resumed_of:
  "snapshotAll h ah prev ps snap = (r, ev) \<Longrightarrow>
   \<exists>ev'. snapshotAll_resumed h ah prev ps snap = (r, ev') \<and> ev = map Stat ps @ ev'"
  by (auto simp: snapshotAll_def split: prod.splits)

lemma snapshotAll_Inr:
  assumes "snapshotAll h ah prev ps snap = (Inr s, ev)"
  shows "(\<forall>p \<in> set ps. \<exists>f. fst (snapshotFile h ah prev p) = Inr f \<and> map_of s p = Some f) \<and>
     (\<forall>p. p \<notin> set ps \<longrightarrow> map_of s p = map_of snap p) \<and>
     set ev = (\<Union>p \<in> set ps. set (snd (snapshotFile h ah prev p)))"
proof -
  from snapshotAll_resumed_of[OF assms] obtain ev' where
    r: "snapshotAll_resumed h ah prev ps snap = (Inr s, ev')" and ev: "ev = map Stat ps @ ev'"
    by blast
  note R = snapshotAll_resumed_Inr[OF r]
  have "set ev = Stat ` set ps \<union>
      (\<Union>p \<in> set ps. set (snd (snapshotFile_resumed h ah prev p (fs_stat h p))))"
    using R ev by auto
  also have "\<dots> = (\<Union>p \<in> set ps. insert (Stat p)
      (set (snd (snapshotFile_resumed h ah prev p (fs_stat h p)))))"
    by auto
  also have "\<dots> = (\<Union>p \<in> set ps. set (snd (snapshotFile h ah prev p)))"
    using snapshotFile_resumed_snd[of _ h ah prev] by (metis list.simps(15))
  finally show ?thesis using R by blast
qed

lemma snapshotAll_keys:
  "snapshotAll h ah prev ps snap = (Inr s, ev) \<Longrightarrow>
     set (map fst s) = set (map fst snap) \<union> set ps \<and>
     (distinct (map fst snap) \<longrightarrow> distinct (map fst s))"
  using snapshotAll_resumed_of snapshotAll_resumed_keys by blast

lemma snapshotAll_total:
  assumes "\<forall>p \<in> set ps. \<exists>f. fst (snapshotFile h ah prev p) = Inr f"
  shows "\<exists>s ev. snapshotAll h ah prev ps snap = (Inr s, ev)"
proof -
  from snapshotAll_resumed_total[OF assms, of snap] obtain s ev where
    "snapshotAll_resumed h ah prev ps snap = (Inr s, ev)" by blast
  then show ?thesis by (simp add: snapshotAll_def)
qed

lemma snapshotAll_cong:
  "(\<forall>p \<in> set ps. fst (snapshotFile h ah prev p) = fst (snapshotFile h' ah' prev' p)) \<Longrightarrow>
   fst (snapshotAll h ah prev ps snap) = fst (snapshotAll h' ah' prev' ps snap)"
  unfolding snapshotAll_fst by (rule snapshotAll_resumed_cong)

lemma snapshotAll_stat_event:
  "Stat p \<in> set (snd (snapshotAll h ah prev ps snap)) \<longleftrightarrow> p \<in> set ps"
  unfolding snapshotAll_snd using snapshotAll_resumed_events[of h ah prev ps snap] by auto

lemma snapshotAll_hash_event:
  assumes "snapshotAll h ah prev ps snap = (Inr s, ev)" and "p \<in> set ps"
  shows "HashFile p \<in> set ev \<longleftrightarrow> HashFile p \<in> set (snd (snapshotFile h ah prev p))"
proof -
  have ev: "set ev = (\<Union>p \<in> set ps. set (snd (snapshotFile h ah prev p)))"
    using snapshotAll_Inr[OF assms(1)] by blast
  show ?thesis
  proof
    assume "HashFile p \<in> set ev"
    then obtain q where "q \<in> set ps" "HashFile p \<in> set (snd (snapshotFile h ah prev q))"
      unfolding ev by auto
    then show "HashFile p \<in> set (snd (snapshotFile h ah prev p))"
      using snapshotFile_events_other[of p q h ah prev] by (cases "q = p") auto
  next
    assume "HashFile p \<in> set (snd (snapshotFile h ah prev p))"
    then show "HashFile p \<in> set ev" unfolding ev using assms(2) by auto
  qed
qed

lemma getGlobDiffSnapshot_resolved:
  "resolveFilePaths h filesOpt patternsOpt = (Inr filePaths, events0) \<Longrightarrow>
   getGlobDiffSnapshot h ah cw filesOpt patternsOpt prevOpt =
     (fst (snapshotAll h ah (case prevOpt of Some s \<Rightarrow> s | None \<Rightarrow> []) filePaths []),
      events0 @ snd (snapshotAll h ah (case prevOpt of Some s \<Rightarrow> s | None \<Rightarrow> []) filePaths []))"
  by (simp add: getGlobDiffSnapshot_def Let_def split: prod.splits)

lemma resolveFilePaths_events:
  "set (snd (resolveFilePaths h filesOpt patternsOpt)) \<subseteq> range Globby"
  by (auto simp: resolveFilePaths_def Let_def split: option.splits sum.splits)

lemma getGlobDiffSnapshot_entry:
  assumes res: "resolveFilePaths h filesOpt patternsOpt = (Inr filePaths, events0)"
      and mem: "fpath \<in> set filePaths"
      and st: "fs_stat h fpath = Inr m"
      and ok: "\<forall>q \<in> set filePaths. \<exists>mq. fs_stat h q = Inr mq \<and>
                 (reuses ah prev q mq \<or> (\<exists>d. hashFile h q = Inr d))"
  shows "\<exists>s events.
           getGlobDiffSnapshot h ah cw filesOpt patternsOpt (Some prev) = (Inr s, events) \<and>
           Stat fpath \<in> set events \<and>
           (HashFile fpath \<in> set events \<longleftrightarrow> \<not> reuses ah prev fpath m) \<and>
           (\<exists>f. snapshotFile h ah prev fpath = (Inr f, snd (snapshotFile h ah prev fpath)) \<and>
                map_of s fpath = Some f)"
proof -
  have "\<forall>q \<in> set filePaths. \<exists>f. fst (snapshotFile h ah prev q) = Inr f"
    using ok snapshotFile_ok by blast
  from snapshotAll_total[OF this, of "[]"] obtain s ev where
    a: "snapshotAll h ah prev filePaths [] = (Inr s, ev)" by blast
  have g: "getGlobDiffSnapshot h ah cw filesOpt patternsOpt (Some prev) = (Inr s, events0 @ ev)"
    using getGlobDiffSnapshot_resolved[OF res, of ah cw "Some prev"] a by simp
  have g0: "set events0 \<subseteq> range Globby"
    using resolveFilePaths_events[of h filesOpt patternsOpt] res by simp
  have stat: "Stat fpath \<in> set ev"
    using snapshotAll_stat_event[of fpath h ah prev filePaths "[]"] a mem by simp
  have hash: "HashFile fpath \<in> set ev \<longleftrightarrow> \<not> reuses ah prev fpath m"
    using snapshotAll_hash_event[OF a mem] snapshotFile_hash_event[OF st, of ah prev] by simp
  have hash0: "HashFile fpath \<notin> set events0" using g0 by auto
  from snapshotAll_Inr[OF a] mem obtain f where
    f: "fst (snapshotFile h ah prev fpath) = Inr f" "map_of s fpath = Some f" by blast
  then have "snapshotFile h ah prev fpath = (Inr f, snd (snapshotFile h ah prev fpath))"
    by (metis prod.collapse)
  with g stat hash hash0 f(2) show ?thesis by auto
qed

text \<open>
  C1.  Let the stat of a path give the time \<open>m\<close>, and say that the previous hash is
  reusable when \<open>alwaysHash\<close> is not set, the previous snapshot has an entry for the path,
  and the \<open>mtimeMs\<close> of that entry is \<open>===\<close> to \<open>m\<close>.

  For the callback: the hash function is not called exactly when the previous hash is
  reusable; the entry is then the previous hash with \<open>m\<close>; otherwise the hash function
  is called, and the entry is its digest with \<open>m\<close>, or its failure is the outcome.

  For the loop: in a snapshot that it returns, the entry of the path is the entry of the
  callback, it carries \<open>m\<close>, and the hash function was called for the path exactly when
  the previous hash is not reusable.

  For the builder, with \<open>alwaysHash\<close> and the previous snapshot as it is given them: when
  the path is among the resolved paths, and every resolved path can be statted and has
  a reusable previous hash or can be hashed, then the builder returns a snapshot; it has
  called the stat of the path; it has called the hash function for the path exactly when
  the previous hash is not reusable; the entry stored under the path is the previous
  hash with \<open>m\<close> when that hash is reusable, and the digest of the file with \<open>m\<close>
  otherwise.
\<close>

theorem snapshot_reuse_policy:
  assumes "fs_stat h fpath = Inr m"
  shows
    "(reuses ah prev fpath m \<longleftrightarrow> HashFile fpath \<notin> set (snd (snapshotFile h ah prev fpath))) \<and>
     (reuses ah prev fpath m \<longrightarrow>
        (\<exists>previousFile. map_of prev fpath = Some previousFile \<and>
           snapshotFile h ah prev fpath =
             (Inr \<lparr>hash = hash previousFile, mtimeMs = m\<rparr>, [Stat fpath]))) \<and>
     (\<not> reuses ah prev fpath m \<longrightarrow>
        snapshotFile h ah prev fpath =
          (case hashFile h fpath of
             Inl e \<Rightarrow> Inl (IOError e)
           | Inr fileHash \<Rightarrow> Inr \<lparr>hash = fileHash, mtimeMs = m\<rparr>,
           [Stat fpath, HashFile fpath])) \<and>
     (\<forall>filePaths snap s events.
        snapshotAll h ah prev filePaths snap = (Inr s, events) \<and> fpath \<in> set filePaths \<longrightarrow>
          (\<exists>f. fst (snapshotFile h ah prev fpath) = Inr f \<and> map_of s fpath = Some f \<and>
               mtimeMs f = m) \<and>
          (HashFile fpath \<in> set events \<longleftrightarrow> \<not> reuses ah prev fpath m)) \<and>
     (\<forall>filesOpt patternsOpt filePaths events0 cw.
        resolveFilePaths h filesOpt patternsOpt = (Inr filePaths, events0) \<and>
        fpath \<in> set filePaths \<and>
        (\<forall>q \<in> set filePaths. \<exists>mq. fs_stat h q = Inr mq \<and>
            (reuses ah prev q mq \<or> (\<exists>d. hashFile h q = Inr d))) \<longrightarrow>
          (\<exists>s events.
             getGlobDiffSnapshot h ah cw filesOpt patternsOpt (Some prev) = (Inr s, events) \<and>
             Stat fpath \<in> set events \<and>
             (reuses ah prev fpath m \<longrightarrow>
                HashFile fpath \<notin> set events \<and>
                (\<exists>previousFile. map_of prev fpath = Some previousFile \<and>
                   map_of s fpath = Some \<lparr>hash = hash previousFile, mtimeMs = m\<rparr>)) \<and>
             (\<not> reuses ah prev fpath m \<longrightarrow>
                HashFile fpath \<in> set events \<and>
                (\<exists>fileHash. hashFile h fpath = Inr fileHash \<and>
                   map_of s fpath = Some \<lparr>hash = fileHash, mtimeMs = m\<rparr>))))"
proof -
  have 1: "reuses ah prev fpath m \<longleftrightarrow> HashFile fpath \<notin> set (snd (snapshotFile h ah prev fpath))"
    using snapshotFile_hash_event[OF assms, of ah prev] by blast
  have 2: "reuses ah prev fpath m \<longrightarrow>
        (\<exists>previousFile. map_of prev fpath = Some previousFile \<and>
           snapshotFile h ah prev fpath =
             (Inr \<lparr>hash = hash previousFile, mtimeMs = m\<rparr>, [Stat fpath]))"
    using snapshotFile_reused[OF assms, of ah prev]
    by (auto simp: reuses_def split: option.splits)
  have 3: "\<not> reuses ah prev fpath m \<longrightarrow>
        snapshotFile h ah prev fpath =
          (case hashFile h fpath of
             Inl e \<Rightarrow> Inl (IOError e)
           | Inr fileHash \<Rightarrow> Inr \<lparr>hash = fileHash, mtimeMs = m\<rparr>,
           [Stat fpath, HashFile fpath])"
    using snapshotFile_hashed[OF assms, of ah prev]
    by (auto simp: reuses_def split: option.splits)
  have 4: "(\<exists>f. fst (snapshotFile h ah prev fpath) = Inr f \<and> map_of s fpath = Some f \<and>
               mtimeMs f = m) \<and>
          (HashFile fpath \<in> set events \<longleftrightarrow> \<not> reuses ah prev fpath m)"
    if "snapshotAll h ah prev filePaths snap = (Inr s, events)" "fpath \<in> set filePaths"
    for filePaths snap s events
  proof -
    from snapshotAll_Inr[OF that(1)] that(2) obtain f where
      f: "fst (snapshotFile h ah prev fpath) = Inr f" "map_of s fpath = Some f" by blast
    have "mtimeMs f = m" using snapshotFile_mtimeMs[OF assms f(1)] .
    moreover have "HashFile fpath \<in> set events \<longleftrightarrow> \<not> reuses ah prev fpath m"
      using snapshotAll_hash_event[OF that] snapshotFile_hash_event[OF assms, of ah prev] by simp
    ultimately show ?thesis using f by blast
  qed
  have 5: "\<exists>s events.
             getGlobDiffSnapshot h ah cw filesOpt patternsOpt (Some prev) = (Inr s, events) \<and>
             Stat fpath \<in> set events \<and>
             (reuses ah prev fpath m \<longrightarrow>
                HashFile fpath \<notin> set events \<and>
                (\<exists>previousFile. map_of prev fpath = Some previousFile \<and>
                   map_of s fpath = Some \<lparr>hash = hash previousFile, mtimeMs = m\<rparr>)) \<and>
             (\<not> reuses ah prev fpath m \<longrightarrow>
                HashFile fpath \<in> set events \<and>
                (\<exists>fileHash. hashFile h fpath = Inr fileHash \<and>
                   map_of s fpath = Some \<lparr>hash = fileHash, mtimeMs = m\<rparr>))"
    if res: "resolveFilePaths h filesOpt patternsOpt = (Inr filePaths, events0)"
      and mem: "fpath \<in> set filePaths"
      and ok: "\<forall>q \<in> set filePaths. \<exists>mq. fs_stat h q = Inr mq \<and>
                 (reuses ah prev q mq \<or> (\<exists>d. hashFile h q = Inr d))"
    for filesOpt patternsOpt filePaths events0 cw
  proof -
    from getGlobDiffSnapshot_entry[OF res mem assms ok, of cw] obtain s events f where
      g: "getGlobDiffSnapshot h ah cw filesOpt patternsOpt (Some prev) = (Inr s, events)"
      and stat: "Stat fpath \<in> set events"
      and hash: "HashFile fpath \<in> set events \<longleftrightarrow> \<not> reuses ah prev fpath m"
      and f: "snapshotFile h ah prev fpath = (Inr f, snd (snapshotFile h ah prev fpath))"
             "map_of s fpath = Some f"
      by blast
    have r: "\<exists>previousFile. map_of prev fpath = Some previousFile \<and>
                map_of s fpath = Some \<lparr>hash = hash previousFile, mtimeMs = m\<rparr>"
      if "reuses ah prev fpath m"
    proof -
      from 2 that obtain pf where
        pf: "map_of prev fpath = Some pf"
            "snapshotFile h ah prev fpath = (Inr \<lparr>hash = hash pf, mtimeMs = m\<rparr>, [Stat fpath])"
        by blast
      from pf(2) f(1) have "f = \<lparr>hash = hash pf, mtimeMs = m\<rparr>" by simp
      with pf(1) f(2) show ?thesis by blast
    qed
    have n: "\<exists>fileHash. hashFile h fpath = Inr fileHash \<and>
                map_of s fpath = Some \<lparr>hash = fileHash, mtimeMs = m\<rparr>"
      if "\<not> reuses ah prev fpath m"
    proof (cases "hashFile h fpath")
      case (Inl e)
      with 3 that have "snapshotFile h ah prev fpath = (Inl (IOError e), [Stat fpath, HashFile fpath])"
        by simp
      with f(1) show ?thesis by simp
    next
      case (Inr d)
      with 3 that have
        "snapshotFile h ah prev fpath = (Inr \<lparr>hash = d, mtimeMs = m\<rparr>, [Stat fpath, HashFile fpath])"
        by simp
      with f(1) have "f = \<lparr>hash = d, mtimeMs = m\<rparr>" by simp
      with Inr f(2) show ?thesis by blast
    qed
    have hr: "HashFile fpath \<notin> set events" if "reuses ah prev fpath m"
      using hash that by simp
    have hn: "HashFile fpath \<in> set events" if "\<not> reuses ah prev fpath m"
      using hash that by simp
    have body: "getGlobDiffSnapshot h ah cw filesOpt patternsOpt (Some prev) = (Inr s, events) \<and>
             Stat fpath \<in> set events \<and>
             (reuses ah prev fpath m \<longrightarrow>
                HashFile fpath \<notin> set events \<and>
                (\<exists>previousFile. map_of prev fpath = Some previousFile \<and>
                   map_of s fpath = Some \<lparr>hash = hash previousFile, mtimeMs = m\<rparr>)) \<and>
             (\<not> reuses ah prev fpath m \<longrightarrow>
                HashFile fpath \<in> set events \<and>
                (\<exists>fileHash. hashFile h fpath = Inr fileHash \<and>
                   map_of s fpath = Some \<lparr>hash = fileHash, mtimeMs = m\<rparr>))"
    proof (cases "reuses ah prev fpath m")
      case True
      with g stat hr r show ?thesis by simp
    next
      case False
      with g stat hn n show ?thesis by simp
    qed
    show ?thesis by (rule exI[of _ s], rule exI[of _ events], rule body)
  qed
  have c4: "\<forall>filePaths snap s events.
        snapshotAll h ah prev filePaths snap = (Inr s, events) \<and> fpath \<in> set filePaths \<longrightarrow>
          (\<exists>f. fst (snapshotFile h ah prev fpath) = Inr f \<and> map_of s fpath = Some f \<and>
               mtimeMs f = m) \<and>
          (HashFile fpath \<in> set events \<longleftrightarrow> \<not> reuses ah prev fpath m)"
    using 4 by blast
  have c5: "\<forall>filesOpt patternsOpt filePaths events0 cw.
        resolveFilePaths h filesOpt patternsOpt = (Inr filePaths, events0) \<and>
        fpath \<in> set filePaths \<and>
        (\<forall>q \<in> set filePaths. \<exists>mq. fs_stat h q = Inr mq \<and>
            (reuses ah prev q mq \<or> (\<exists>d. hashFile h q = Inr d))) \<longrightarrow>
          (\<exists>s events.
             getGlobDiffSnapshot h ah cw filesOpt patternsOpt (Some prev) = (Inr s, events) \<and>
             Stat fpath \<in> set events \<and>
             (reuses ah prev fpath m \<longrightarrow>
                HashFile fpath \<notin> set events \<and>
                (\<exists>previousFile. map_of prev fpath = Some previousFile \<and>
                   map_of s fpath = Some \<lparr>hash = hash previousFile, mtimeMs = m\<rparr>)) \<and>
             (\<not> reuses ah prev fpath m \<longrightarrow>
                HashFile fpath \<in> set events \<and>
                (\<exists>fileHash. hashFile h fpath = Inr fileHash \<and>
                   map_of s fpath = Some \<lparr>hash = fileHash, mtimeMs = m\<rparr>)))"
  proof (intro allI impI, elim conjE)
    fix filesOpt patternsOpt filePaths events0 cw
    assume "resolveFilePaths h filesOpt patternsOpt = (Inr filePaths, events0)"
      and "fpath \<in> set filePaths"
      and "\<forall>q \<in> set filePaths. \<exists>mq. fs_stat h q = Inr mq \<and>
            (reuses ah prev q mq \<or> (\<exists>d. hashFile h q = Inr d))"
    then show "\<exists>s events.
             getGlobDiffSnapshot h ah cw filesOpt patternsOpt (Some prev) = (Inr s, events) \<and>
             Stat fpath \<in> set events \<and>
             (reuses ah prev fpath m \<longrightarrow>
                HashFile fpath \<notin> set events \<and>
                (\<exists>previousFile. map_of prev fpath = Some previousFile \<and>
                   map_of s fpath = Some \<lparr>hash = hash previousFile, mtimeMs = m\<rparr>)) \<and>
             (\<not> reuses ah prev fpath m \<longrightarrow>
                HashFile fpath \<in> set events \<and>
                (\<exists>fileHash. hashFile h fpath = Inr fileHash \<and>
                   map_of s fpath = Some \<lparr>hash = fileHash, mtimeMs = m\<rparr>))"
      by (rule 5)
  qed
  show ?thesis by (rule conjI[OF 1 conjI[OF 2 conjI[OF 3 conjI[OF c4 c5]]]])
qed

text \<open>
  An instance, on the builder: \<open>/work/a.txt\<close> has the time of its previous entry, so its
  old hash is kept and the file is not hashed, while \<open>/work/b.txt\<close> has a new time and is
  hashed; with \<open>alwaysHash\<close> set \<open>/work/a.txt\<close> is hashed too.
\<close>

theorem snapshot_reuse_policy_witness:
  "fs_stat example_host ''/work/a.txt'' = Inr (Finite 100) \<and>
   resolveFilePaths example_host None (Some (Pattern ''*.txt'')) =
     (Inr [''/work/a.txt'', ''/work/b.txt''], [Globby (Pattern ''*.txt'')]) \<and>
   ''/work/a.txt'' \<in> set [''/work/a.txt'', ''/work/b.txt''] \<and>
   hashFile example_host ''/work/a.txt'' = Inr ''aaa'' \<and>
   fs_stat example_host ''/work/b.txt'' = Inr (Finite 200) \<and>
   hashFile example_host ''/work/b.txt'' = Inr ''bbb'' \<and>
   reuses None example_previous ''/work/a.txt'' (Finite 100) \<and>
   snapshotFile example_host None example_previous ''/work/a.txt'' =
     (Inr \<lparr>hash = ''old'', mtimeMs = Finite 100\<rparr>, [Stat ''/work/a.txt'']) \<and>
   getGlobDiffSnapshot example_host None None None (Some (Pattern ''*.txt'')) (Some example_previous) =
     (Inr [(''/work/a.txt'', \<lparr>hash = ''old'', mtimeMs = Finite 100\<rparr>),
           (''/work/b.txt'', \<lparr>hash = ''bbb'', mtimeMs = Finite 200\<rparr>)],
      [Globby (Pattern ''*.txt''), Stat ''/work/a.txt'', Stat ''/work/b.txt'',
       HashFile ''/work/b.txt'']) \<and>
   \<not> reuses (Some True) example_previous ''/work/a.txt'' (Finite 100) \<and>
   snapshotFile example_host (Some True) example_previous ''/work/a.txt'' =
     (Inr \<lparr>hash = ''aaa'', mtimeMs = Finite 100\<rparr>, [Stat ''/work/a.txt'', HashFile ''/work/a.txt'']) \<and>
   getGlobDiffSnapshot example_host (Some True) None None (Some (Pattern ''*.txt''))
       (Some example_previous) =
     (Inr [(''/work/a.txt'', \<lparr>hash = ''aaa'', mtimeMs = Finite 100\<rparr>),
           (''/work/b.txt'', \<lparr>hash = ''bbb'', mtimeMs = Finite 200\<rparr>)],
      [Globby (Pattern ''*.txt''), Stat ''/work/a.txt'', Stat ''/work/b.txt'',
       HashFile ''/work/a.txt'', HashFile ''/work/b.txt''])"
proof -
  have st: "fs_stat example_host ''/work/a.txt'' = Inr (Finite 100)"
    by (simp add: example_host_def)
  have res: "resolveFilePaths example_host None (Some (Pattern ''*.txt'')) =
     (Inr [''/work/a.txt'', ''/work/b.txt''], [Globby (Pattern ''*.txt'')])"
    by (simp add: resolveFilePaths_def example_host_def)
  have g1: "getGlobDiffSnapshot example_host None None None (Some (Pattern ''*.txt''))
       (Some example_previous) =
     (Inr [(''/work/a.txt'', \<lparr>hash = ''old'', mtimeMs = Finite 100\<rparr>),
           (''/work/b.txt'', \<lparr>hash = ''bbb'', mtimeMs = Finite 200\<rparr>)],
      [Globby (Pattern ''*.txt''), Stat ''/work/a.txt'', Stat ''/work/b.txt'',
       HashFile ''/work/b.txt''])"
    unfolding getGlobDiffSnapshot_def res
    by (simp add: snapshotAll_def snapshotFile_resumed_def optional_mtimeMs_equals_def
          example_host_def example_previous_def strict_equals_number_def)
  have g2: "getGlobDiffSnapshot example_host (Some True) None None (Some (Pattern ''*.txt''))
       (Some example_previous) =
     (Inr [(''/work/a.txt'', \<lparr>hash = ''aaa'', mtimeMs = Finite 100\<rparr>),
           (''/work/b.txt'', \<lparr>hash = ''bbb'', mtimeMs = Finite 200\<rparr>)],
      [Globby (Pattern ''*.txt''), Stat ''/work/a.txt'', Stat ''/work/b.txt'',
       HashFile ''/work/a.txt'', HashFile ''/work/b.txt''])"
    unfolding getGlobDiffSnapshot_def res
    by (simp add: snapshotAll_def snapshotFile_resumed_def optional_mtimeMs_equals_def
          example_host_def example_previous_def strict_equals_number_def)
  show ?thesis
    using st res g1 g2 snapshot_reuse_policy[OF st, of None example_previous]
      snapshot_reuse_policy[OF st, of "Some True" example_previous]
    by (simp add: reuses_def example_previous_def strict_equals_number_def example_host_def)
qed

text \<open>
  C5.  When the resolved paths are distinct, a snapshot that the builder returns has
  these paths and no others as its keys, each once, whatever the previous snapshot and
  \<open>alwaysHash\<close> are; and the builder does return a snapshot when every path can be
  statted and hashed.
\<close>

theorem getGlobDiffSnapshot_keys:
  assumes "resolveFilePaths h filesOpt patternsOpt = (Inr filePaths, events0)"
      and "distinct filePaths"
  shows
    "(\<forall>s events.
        getGlobDiffSnapshot h ah cw filesOpt patternsOpt prevOpt = (Inr s, events) \<longrightarrow>
          set (Object_keys s) = set filePaths \<and> distinct (Object_keys s) \<and>
          length s = length filePaths) \<and>
     ((\<forall>p \<in> set filePaths. (\<exists>m. fs_stat h p = Inr m) \<and> (\<exists>d. hashFile h p = Inr d)) \<longrightarrow>
        (\<exists>s events. getGlobDiffSnapshot h ah cw filesOpt patternsOpt prevOpt = (Inr s, events)))"
proof -
  let ?prev = "case prevOpt of Some s \<Rightarrow> s | None \<Rightarrow> []"
  have g: "getGlobDiffSnapshot h ah cw filesOpt patternsOpt prevOpt =
        (fst (snapshotAll h ah ?prev filePaths []), events0 @ snd (snapshotAll h ah ?prev filePaths []))"
    using assms(1) by (simp add: getGlobDiffSnapshot_def Let_def split: prod.splits)
  have a: "set (Object_keys s) = set filePaths \<and> distinct (Object_keys s) \<and>
          length s = length filePaths"
    if "getGlobDiffSnapshot h ah cw filesOpt patternsOpt prevOpt = (Inr s, events)" for s events
  proof -
    from that g have "snapshotAll h ah ?prev filePaths [] = (Inr s, snd (snapshotAll h ah ?prev filePaths []))"
      by (metis fst_conv prod.collapse)
    from snapshotAll_keys[OF this] have k: "set (map fst s) = set filePaths" "distinct (map fst s)"
      by simp_all
    have "card (set (map fst s)) = length (map fst s)" by (rule distinct_card[OF k(2)])
    moreover have "card (set filePaths) = length filePaths" by (rule distinct_card[OF assms(2)])
    ultimately have "length s = length filePaths" using k(1) by simp
    then show ?thesis using k by (simp add: Object_keys_def)
  qed
  have b: "\<exists>s events. getGlobDiffSnapshot h ah cw filesOpt patternsOpt prevOpt = (Inr s, events)"
    if "\<forall>p \<in> set filePaths. (\<exists>m. fs_stat h p = Inr m) \<and> (\<exists>d. hashFile h p = Inr d)"
  proof -
    from that have "\<forall>p \<in> set filePaths. \<exists>f. fst (snapshotFile h ah ?prev p) = Inr f"
      using snapshotFile_ok by blast
    from snapshotAll_total[OF this, of "[]"] show ?thesis unfolding g by auto
  qed
  from a b show ?thesis by blast
qed

text \<open>
  An instance: two files are found; the previous snapshot has a third path, which the
  result does not have.
\<close>

theorem getGlobDiffSnapshot_keys_witness:
  "resolveFilePaths example_host None (Some (Pattern ''*.txt'')) =
     (Inr [''/work/a.txt'', ''/work/b.txt''], [Globby (Pattern ''*.txt'')]) \<and>
   distinct [''/work/a.txt'', ''/work/b.txt''] \<and>
   getGlobDiffSnapshot example_host None None None (Some (Pattern ''*.txt'')) (Some example_previous) =
     (Inr [(''/work/a.txt'', \<lparr>hash = ''old'', mtimeMs = Finite 100\<rparr>),
           (''/work/b.txt'', \<lparr>hash = ''bbb'', mtimeMs = Finite 200\<rparr>)],
      [Globby (Pattern ''*.txt''), Stat ''/work/a.txt'', Stat ''/work/b.txt'', HashFile ''/work/b.txt'']) \<and>
   set (Object_keys [(''/work/a.txt'', \<lparr>hash = ''old'', mtimeMs = Finite 100\<rparr>),
           (''/work/b.txt'', \<lparr>hash = ''bbb'', mtimeMs = Finite 200\<rparr>)]) =
     set [''/work/a.txt'', ''/work/b.txt'']"
proof -
  have r: "resolveFilePaths example_host None (Some (Pattern ''*.txt'')) =
     (Inr [''/work/a.txt'', ''/work/b.txt''], [Globby (Pattern ''*.txt'')])"
    by (simp add: resolveFilePaths_def example_host_def)
  have d: "distinct [''/work/a.txt'', ''/work/b.txt'']" by simp
  have g: "getGlobDiffSnapshot example_host None None None (Some (Pattern ''*.txt'')) (Some example_previous) =
     (Inr [(''/work/a.txt'', \<lparr>hash = ''old'', mtimeMs = Finite 100\<rparr>),
           (''/work/b.txt'', \<lparr>hash = ''bbb'', mtimeMs = Finite 200\<rparr>)],
      [Globby (Pattern ''*.txt''), Stat ''/work/a.txt'', Stat ''/work/b.txt'', HashFile ''/work/b.txt''])"
    unfolding getGlobDiffSnapshot_def r
    by (simp add: snapshotAll_def snapshotFile_resumed_def optional_mtimeMs_equals_def example_host_def example_previous_def
          strict_equals_number_def)
  show ?thesis
    using r d g getGlobDiffSnapshot_keys[OF r d, of None None "Some example_previous"]
    by simp
qed

subsection \<open>Loading\<close>

lemma loadGlobDiffSnapshot_events: "snd (loadGlobDiffSnapshot h p) = [ReadFile p]"
  by (simp add: loadGlobDiffSnapshot_def split: sum.splits option.splits)

lemma loadGlobDiffSnapshot_failed_read:
  "fs_readFile h p = Inl e \<Longrightarrow> loadGlobDiffSnapshot h p = (Inr [], [ReadFile p])"
  by (simp add: loadGlobDiffSnapshot_def)

lemma loadGlobDiffSnapshot_empty_content:
  "fs_readFile h p = Inr [] \<Longrightarrow> loadGlobDiffSnapshot h p = (Inr [], [ReadFile p])"
  by (simp add: loadGlobDiffSnapshot_def)

lemma loadGlobDiffSnapshot_malformed:
  "fs_readFile h p = Inr content \<Longrightarrow> content \<noteq> [] \<Longrightarrow> JSON_parse h content = Some v \<Longrightarrow>
   \<not> isValidGlobDiffSnapshot v \<Longrightarrow>
   loadGlobDiffSnapshot h p = (Inl InvalidSnapshotFile, [ReadFile p])"
  by (simp add: loadGlobDiffSnapshot_def)

lemma loadGlobDiffSnapshot_wellformed:
  "fs_readFile h p = Inr content \<Longrightarrow> content \<noteq> [] \<Longrightarrow> JSON_parse h content = Some v \<Longrightarrow>
   isValidGlobDiffSnapshot v \<Longrightarrow>
   loadGlobDiffSnapshot h p = (Inr (as_GlobDiffSnapshot v), [ReadFile p])"
  by (simp add: loadGlobDiffSnapshot_def)

lemma isValid_jsval_of: "isValidGlobDiffSnapshot (jsval_of_GlobDiffSnapshot s)"
  by (auto simp: isValidGlobDiffSnapshot_def jsval_of_GlobDiffSnapshot_def entries_valid_iff)

lemma as_jsval_of: "as_GlobDiffSnapshot (jsval_of_GlobDiffSnapshot s) = s"
  by (induction s) (auto simp: as_GlobDiffSnapshot_def jsval_of_GlobDiffSnapshot_def as_GlobDiffFileSnapshot_def)

subsection \<open>The main operation\<close>

lemma globDiff_supplied_invalid:
  "truthy (GlobDiffOptions.snapshot (globDiff_options a mo)) \<Longrightarrow>
   \<not> isValidGlobDiffSnapshot (GlobDiffOptions.snapshot (globDiff_options a mo)) \<Longrightarrow>
   globDiff h a mo = (Inl InvalidSnapshot, [])"
  by (simp add: globDiff_def Let_def)

lemma globDiff_supplied_valid:
  "isValidGlobDiffSnapshot (GlobDiffOptions.snapshot (globDiff_options a mo)) \<Longrightarrow>
   globDiff h a mo =
     globDiff_run h (globDiff_options a mo) (globDiff_snapshotFilePath h (globDiff_options a mo))
       (as_GlobDiffSnapshot (GlobDiffOptions.snapshot (globDiff_options a mo)))"
  by (simp add: globDiff_def Let_def valid_truthy split: prod.splits)

lemma globDiff_not_supplied:
  "\<not> truthy (GlobDiffOptions.snapshot (globDiff_options a mo)) \<Longrightarrow>
   globDiff h a mo =
     (case loadGlobDiffSnapshot h (globDiff_snapshotFilePath h (globDiff_options a mo)) of
        (Inl e, events) \<Rightarrow> (Inl e, events)
      | (Inr previousSnapshot, events) \<Rightarrow>
          (case globDiff_run h (globDiff_options a mo)
                  (globDiff_snapshotFilePath h (globDiff_options a mo)) previousSnapshot of
             (r, events') \<Rightarrow> (r, events @ events')))"
  by (simp add: globDiff_def Let_def)

lemma globDiff_run_unconfigured:
  "\<not> truthy_patterns (patterns opts) \<Longrightarrow> files opts = None \<Longrightarrow>
   globDiff_run h opts path prev = (Inl PatternsOrFilesMustBeProvided, [])"
  by (simp add: globDiff_run_def)

lemma snapshotFile_no_read: "ReadFile q \<notin> set (snd (snapshotFile h ah prev p))"
  using snapshotFile_events[of h ah prev p] by auto

lemma snapshotAll_no_read: "ReadFile q \<notin> set (snd (snapshotAll h ah prev ps snap))"
  unfolding snapshotAll_snd using snapshotAll_resumed_events[of h ah prev ps snap] by auto

lemma resolveFilePaths_no_read: "ReadFile q \<notin> set (snd (resolveFilePaths h fs pats))"
  by (auto simp: resolveFilePaths_def Let_def split: option.splits sum.splits)

lemma getGlobDiffSnapshot_no_read:
  "ReadFile q \<notin> set (snd (getGlobDiffSnapshot h ah cw fs pats prevOpt))"
proof -
  obtain r e0 where 1: "resolveFilePaths h fs pats = (r, e0)" by (cases "resolveFilePaths h fs pats")
  have e0: "ReadFile q \<notin> set e0" using resolveFilePaths_no_read[of q h fs pats] 1 by simp
  show ?thesis
  proof (cases r)
    case (Inl e)
    then show ?thesis using 1 e0 by (simp add: getGlobDiffSnapshot_def)
  next
    case (Inr ps)
    then show ?thesis
      using 1 e0 snapshotAll_no_read[of q h ah "case prevOpt of Some s \<Rightarrow> s | None \<Rightarrow> []" ps "[]"]
      by (auto simp: getGlobDiffSnapshot_def Let_def split: prod.splits)
  qed
qed

lemma globDiff_run_no_read: "ReadFile q \<notin> set (snd (globDiff_run h opts path prev))"
  using getGlobDiffSnapshot_no_read[of q h "alwaysHash opts" "cwd opts" "files opts" "patterns opts" "Some prev"]
  by (auto simp: globDiff_run_def Let_def split: prod.splits sum.splits)

lemma snapshotFile_rerun:
  assumes "fst (snapshotFile h ah prev0 p) = Inr f" and "map_of s1 p = Some f"
  shows "fst (snapshotFile h ah s1 p) = Inr f"
proof (cases "fs_stat h p")
  case (Inl e)
  then show ?thesis using assms(1)
    by (simp add: snapshotFile_def snapshotFile_resumed_def optional_mtimeMs_equals_def)
next
  case (Inr m)
  have m: "mtimeMs f = m" using snapshotFile_mtimeMs[OF Inr assms(1)] .
  show ?thesis
  proof (cases "ah \<noteq> Some True \<and> strict_equals_number m m")
    case True
    then show ?thesis using Inr m assms(2)
      by (simp add: snapshotFile_def snapshotFile_resumed_def optional_mtimeMs_equals_def)
  next
    case False
    then have "\<not> (ah \<noteq> Some True \<and> (\<exists>e. map_of prev0 p = Some e \<and> strict_equals_number (mtimeMs e) m))"
      by (auto simp: strict_equals_number_def)
    from snapshotFile_hashed[OF Inr this] assms(1)
    have h0: "(case hashFile h p of Inl e \<Rightarrow> Inl (IOError e) | Inr d \<Rightarrow> Inr \<lparr>hash = d, mtimeMs = m\<rparr>) = Inr f"
      by simp
    from False have "\<not> (ah \<noteq> Some True \<and> (\<exists>e. map_of s1 p = Some e \<and> strict_equals_number (mtimeMs e) m))"
      using assms(2) m by auto
    from snapshotFile_hashed[OF Inr this] h0 show ?thesis by simp
  qed
qed

lemma snapshotAll_rerun:
  assumes "snapshotAll h ah prev0 ps snap = (Inr s1, ev)"
  shows "fst (snapshotAll h ah s1 ps snap) = Inr s1"
proof -
  have "\<forall>p \<in> set ps. fst (snapshotFile h ah s1 p) = fst (snapshotFile h ah prev0 p)"
  proof
    fix p assume "p \<in> set ps"
    with snapshotAll_Inr[OF assms] obtain f where
      f: "fst (snapshotFile h ah prev0 p) = Inr f" "map_of s1 p = Some f" by blast
    from snapshotFile_rerun[OF f] f(1) show "fst (snapshotFile h ah s1 p) = fst (snapshotFile h ah prev0 p)"
      by simp
  qed
  from snapshotAll_cong[OF this, of snap] assms show ?thesis by simp
qed

lemma snapshotFile_resumed_readFile_update:
  "snapshotFile_resumed (h\<lparr>fs_readFile := rf\<rparr>) ah prev p st = snapshotFile_resumed h ah prev p st"
  by (simp add: snapshotFile_resumed_def optional_mtimeMs_equals_def split: sum.splits option.splits)

lemma snapshotAll_resumed_readFile_update:
  "snapshotAll_resumed (h\<lparr>fs_readFile := rf\<rparr>) ah prev ps snap = snapshotAll_resumed h ah prev ps snap"
  by (induction ps arbitrary: snap)
     (simp_all add: snapshotFile_resumed_readFile_update split: prod.splits sum.splits)

lemma snapshotAll_readFile_update:
  "snapshotAll (h\<lparr>fs_readFile := rf\<rparr>) ah prev ps snap = snapshotAll h ah prev ps snap"
  by (simp add: snapshotAll_def snapshotAll_resumed_readFile_update)

lemma resolveFilePaths_readFile_update:
  "resolveFilePaths (h\<lparr>fs_readFile := rf\<rparr>) fs pats = resolveFilePaths h fs pats"
  by (simp add: resolveFilePaths_def Let_def split: option.splits sum.splits)

lemma getGlobDiffSnapshot_readFile_update:
  "getGlobDiffSnapshot (h\<lparr>fs_readFile := rf\<rparr>) ah cw fs pats prevOpt = getGlobDiffSnapshot h ah cw fs pats prevOpt"
  unfolding getGlobDiffSnapshot_def resolveFilePaths_readFile_update snapshotAll_readFile_update
  by simp

lemma getGlobDiffSnapshot_rerun:
  assumes "getGlobDiffSnapshot h ah cw fs pats (Some prev0) = (Inr s1, ev)"
  shows "\<exists>ev'. getGlobDiffSnapshot h ah cw fs pats (Some s1) = (Inr s1, ev')"
proof -
  obtain r e0 where r: "resolveFilePaths h fs pats = (r, e0)" by (cases "resolveFilePaths h fs pats")
  show ?thesis
  proof (cases r)
    case (Inl e)
    then show ?thesis using assms r by (simp add: getGlobDiffSnapshot_def)
  next
    case (Inr ps)
    obtain x e1 where a: "snapshotAll h ah prev0 ps [] = (x, e1)" by (cases "snapshotAll h ah prev0 ps []")
    from assms r Inr a have x: "x = Inr s1" by (simp add: getGlobDiffSnapshot_def)
    from snapshotAll_rerun[OF a[unfolded x]] obtain e2 where
      "snapshotAll h ah s1 ps [] = (Inr s1, e2)" by (metis fst_conv prod.collapse)
    then show ?thesis using r Inr by (simp add: getGlobDiffSnapshot_def)
  qed
qed

lemma globDiff_run_Inr:
  assumes "globDiff_run h opts path prev = (Inr r, ev)"
  shows "\<exists>ev'. getGlobDiffSnapshot h (alwaysHash opts) (cwd opts) (files opts) (patterns opts) (Some prev) =
            (Inr (snapshot r), ev') \<and>
          \<not> (\<not> truthy_patterns (patterns opts) \<and> files opts = None) \<and>
          changes r = getGlobDiffChanges prev (snapshot r) \<and>
          (saveSnapshot opts \<noteq> Some False \<longrightarrow>
             fs_writeFile h path (JSON_stringify h (snapshot r)) = Inr () \<and>
             ev = ev' @ [WriteFile path (JSON_stringify h (snapshot r))])"
proof -
  from assms have c: "\<not> (\<not> truthy_patterns (patterns opts) \<and> files opts = None)"
    by (auto simp: globDiff_run_def split: if_splits)
  obtain x e0 where g: "getGlobDiffSnapshot h (alwaysHash opts) (cwd opts) (files opts) (patterns opts) (Some prev) = (x, e0)"
    by (cases "getGlobDiffSnapshot h (alwaysHash opts) (cwd opts) (files opts) (patterns opts) (Some prev)")
  from assms c g obtain s where x: "x = Inr s"
    by (cases x) (auto simp: globDiff_run_def)
  show ?thesis
  proof (cases "saveSnapshot opts \<noteq> Some False")
    case True
    with assms c g x show ?thesis
      by (cases "fs_writeFile h path (JSON_stringify h s)") (auto simp: globDiff_run_def Let_def)
  next
    case False
    with assms c g x show ?thesis
      by (auto simp: globDiff_run_def Let_def)
  qed
qed

lemma globDiff_run_rerun:
  assumes "globDiff_run h opts path prev0 = (Inr r1, ev)"
  shows "\<exists>ev'. globDiff_run (h\<lparr>fs_readFile := rf\<rparr>) opts path (snapshot r1) =
            (Inr \<lparr>snapshot = snapshot r1, changes = []\<rparr>, ev')"
proof -
  let ?h = "h\<lparr>fs_readFile := rf\<rparr>"
  from globDiff_run_Inr[OF assms] obtain ev0 where
    g: "getGlobDiffSnapshot h (alwaysHash opts) (cwd opts) (files opts) (patterns opts) (Some prev0) =
            (Inr (snapshot r1), ev0)"
    and c: "\<not> (\<not> truthy_patterns (patterns opts) \<and> files opts = None)"
    and w: "saveSnapshot opts \<noteq> Some False \<longrightarrow>
             fs_writeFile h path (JSON_stringify h (snapshot r1)) = Inr ()"
    by blast
  from getGlobDiffSnapshot_rerun[OF g] obtain ev1 where
    g2: "getGlobDiffSnapshot ?h (alwaysHash opts) (cwd opts) (files opts) (patterns opts) (Some (snapshot r1)) =
            (Inr (snapshot r1), ev1)"
    unfolding getGlobDiffSnapshot_readFile_update by blast
  have d: "getGlobDiffChanges (snapshot r1) (snapshot r1) = []"
    by (rule getGlobDiffChanges_unchanged) simp_all
  show ?thesis
  proof (cases "saveSnapshot opts \<noteq> Some False")
    case True
    then show ?thesis using g2 c w d by (simp add: globDiff_run_def)
  next
    case False
    then show ?thesis using g2 c d by (simp add: globDiff_run_def)
  qed
qed

lemma getGlobDiffSnapshot_unchanged:
  assumes r: "resolveFilePaths h fs pats = (Inr ps, ev0)"
      and k: "set ps = set (Object_keys s)"
      and ah: "ah \<noteq> Some True"
      and un: "\<forall>p \<in> set ps. \<exists>e m. map_of s p = Some e \<and> fs_stat h p = Inr m \<and>
                 strict_equals_number (mtimeMs e) m"
  shows "\<exists>s' ev. getGlobDiffSnapshot h ah cw fs pats (Some s) = (Inr s', ev) \<and>
           (\<forall>q. HashFile q \<notin> set ev) \<and> getGlobDiffChanges s s' = []"
proof -
  have one: "\<exists>e m. map_of s p = Some e \<and>
               snapshotFile h ah s p = (Inr \<lparr>hash = hash e, mtimeMs = m\<rparr>, [Stat p])"
    if "p \<in> set ps" for p
    using un that ah snapshotFile_reused[of h p _ ah s] by blast
  then have "\<forall>p \<in> set ps. \<exists>f. fst (snapshotFile h ah s p) = Inr f" by fastforce
  from snapshotAll_total[OF this, of "[]"] obtain s' ev where
    a: "snapshotAll h ah s ps [] = (Inr s', ev)" by blast
  have g: "getGlobDiffSnapshot h ah cw fs pats (Some s) = (Inr s', ev0 @ ev)"
    using r a by (simp add: getGlobDiffSnapshot_def)
  have ev: "set ev = (\<Union>p \<in> set ps. set (snd (snapshotFile h ah s p)))"
    using snapshotAll_Inr[OF a] by blast
  have nh: "HashFile q \<notin> set ev" for q
    unfolding ev using one by fastforce
  have nh0: "HashFile q \<notin> set ev0" for q
    using r by (auto simp: resolveFilePaths_def Let_def split: option.splits sum.splits)
  have keys: "set (Object_keys s') = set (Object_keys s)"
    using snapshotAll_keys[OF a] k by (simp add: Object_keys_def)
  have hashes: "map_option hash (map_of s' p) = map_option hash (map_of s p)"
    if "p \<in> set (Object_keys s)" for p
  proof -
    from that k have p: "p \<in> set ps" by simp
    from one[OF p] obtain e m where
      e: "map_of s p = Some e" "snapshotFile h ah s p = (Inr \<lparr>hash = hash e, mtimeMs = m\<rparr>, [Stat p])"
      by blast
    from snapshotAll_Inr[OF a] p obtain f where
      f: "fst (snapshotFile h ah s p) = Inr f" "map_of s' p = Some f" by blast
    from e f have "f = \<lparr>hash = hash e, mtimeMs = m\<rparr>" by simp
    then have "hash f = hash e" by simp
    with e f show ?thesis by simp
  qed
  have "getGlobDiffChanges s s' = []"
    by (rule getGlobDiffChanges_unchanged[OF keys]) (simp add: hashes)
  with g nh nh0 show ?thesis by auto
qed

lemmas globDiff_eval =
  globDiff_def globDiff_options_def globDiff_snapshotFilePath_def globDiff_run_def
  loadGlobDiffSnapshot_def getGlobDiffSnapshot_def resolveFilePaths_def snapshotAll_def
  snapshotFile_def snapshotFile_resumed_def
  getGlobDiffChanges_def spread_options_def no_options_def defaultGlobDiffSnapshotFileName_def
  Object_keys_def isValidGlobDiffSnapshot_def as_GlobDiffSnapshot_def as_GlobDiffFileSnapshot_def
  jsval_of_GlobDiffSnapshot_def strict_equals_number_def optional_mtimeMs_equals_def Let_def
  example_host_def example_previous_def example_built_def example_text_def
  unreadable_host_def empty_file_host_def malformed_file_host_def second_run_host_def

text \<open>
  C4, as the code has it.  When neither \<open>patterns\<close> nor \<open>files\<close> is supplied, the
  operation fails, and it makes no file-system call other than one read of the snapshot
  file.  The test of \<open>patterns\<close> and \<open>files\<close> comes after the previous snapshot has been
  obtained: with a truthy \<open>snapshot\<close> option nothing is read, and the error is the
  configuration error if the option is valid and the validation error if it is not;
  without one the snapshot file is read first, and the error is the configuration error
  unless loading itself fails.
\<close>

theorem globDiff_neither_patterns_nor_files:
  assumes "patterns (globDiff_options a mo) = None" and "files (globDiff_options a mo) = None"
  shows
    "(\<exists>e. fst (globDiff h a mo) = Inl e) \<and>
     snd (globDiff h a mo) =
       (if truthy (GlobDiffOptions.snapshot (globDiff_options a mo)) then []
        else [ReadFile (globDiff_snapshotFilePath h (globDiff_options a mo))]) \<and>
     fst (globDiff h a mo) =
       (if truthy (GlobDiffOptions.snapshot (globDiff_options a mo))
        then (if isValidGlobDiffSnapshot (GlobDiffOptions.snapshot (globDiff_options a mo))
              then Inl PatternsOrFilesMustBeProvided else Inl InvalidSnapshot)
        else (case fst (loadGlobDiffSnapshot h (globDiff_snapshotFilePath h (globDiff_options a mo))) of
                Inl e \<Rightarrow> Inl e
              | Inr previousSnapshot \<Rightarrow> Inl PatternsOrFilesMustBeProvided))"
proof -
  let ?o = "globDiff_options a mo"
  let ?p = "globDiff_snapshotFilePath h ?o"
  have run: "globDiff_run h ?o ?p prev = (Inl PatternsOrFilesMustBeProvided, [])" for prev
    using assms by (simp add: globDiff_run_unconfigured)
  show ?thesis
  proof (cases "truthy (GlobDiffOptions.snapshot ?o)")
    case True
    show ?thesis
    proof (cases "isValidGlobDiffSnapshot (GlobDiffOptions.snapshot ?o)")
      case v: True
      show ?thesis unfolding globDiff_supplied_valid[OF v] run using True v by simp
    next
      case False
      show ?thesis unfolding globDiff_supplied_invalid[OF True False] using True False by simp
    qed
  next
    case False
    obtain r ev where l: "loadGlobDiffSnapshot h ?p = (r, ev)" by (cases "loadGlobDiffSnapshot h ?p")
    have ev: "ev = [ReadFile ?p]" using loadGlobDiffSnapshot_events[of h ?p] l by simp
    show ?thesis unfolding globDiff_not_supplied[OF False] l run using False ev
      by (cases r) simp_all
  qed
qed

text \<open>
  An instance: with an empty snapshot object supplied the configuration error comes
  with no file-system call; with an invalid one the validation error comes instead.
\<close>

theorem globDiff_neither_patterns_nor_files_witness:
  "patterns (globDiff_options (OptionsArg (no_options\<lparr>GlobDiffOptions.snapshot := JObject []\<rparr>)) None) = None \<and>
   files (globDiff_options (OptionsArg (no_options\<lparr>GlobDiffOptions.snapshot := JObject []\<rparr>)) None) = None \<and>
   globDiff example_host (OptionsArg (no_options\<lparr>GlobDiffOptions.snapshot := JObject []\<rparr>)) None =
     (Inl PatternsOrFilesMustBeProvided, []) \<and>
   globDiff example_host
     (OptionsArg (no_options\<lparr>GlobDiffOptions.snapshot := JObject [(''/work/a.txt'', JNull)]\<rparr>)) None =
     (Inl InvalidSnapshot, [])"
  using globDiff_neither_patterns_nor_files
    [of "OptionsArg (no_options\<lparr>GlobDiffOptions.snapshot := JObject []\<rparr>)" None example_host]
    globDiff_neither_patterns_nor_files
    [of "OptionsArg (no_options\<lparr>GlobDiffOptions.snapshot := JObject [(''/work/a.txt'', JNull)]\<rparr>)"
        None example_host]
  by (simp add: globDiff_eval)

text \<open>
  C4 as stated fails: with no option at all, the snapshot file is read before the
  configuration error is raised; and when that file is malformed, the error is not the
  configuration error.
\<close>

theorem globDiff_config_error_after_read_counterexample:
  "patterns no_options = None \<and> files no_options = None \<and>
   globDiff example_host (OptionsArg no_options) None =
     (Inl PatternsOrFilesMustBeProvided, [ReadFile ''/work/.glob-diff.json'']) \<and>
   globDiff malformed_file_host (OptionsArg no_options) None =
     (Inl InvalidSnapshotFile, [ReadFile ''/work/.glob-diff.json''])"
  by (simp add: globDiff_eval)

text \<open>
  C7, as the code has it.  When the \<open>snapshot\<close> option is truthy: if it fails
  validation, the operation fails with the validation error and has made no
  file-system call; if it passes, the rest of the operation runs with it as the previous
  snapshot, and no file is read.  (A value that passes validation is always truthy.  A
  falsy value, such as \<open>null\<close>, is treated as no snapshot at all.)
\<close>

theorem globDiff_supplied_snapshot:
  assumes "truthy (GlobDiffOptions.snapshot (globDiff_options a mo))"
  shows
    "(\<not> isValidGlobDiffSnapshot (GlobDiffOptions.snapshot (globDiff_options a mo)) \<longrightarrow>
        globDiff h a mo = (Inl InvalidSnapshot, [])) \<and>
     (isValidGlobDiffSnapshot (GlobDiffOptions.snapshot (globDiff_options a mo)) \<longrightarrow>
        globDiff h a mo =
          globDiff_run h (globDiff_options a mo) (globDiff_snapshotFilePath h (globDiff_options a mo))
            (as_GlobDiffSnapshot (GlobDiffOptions.snapshot (globDiff_options a mo))) \<and>
        (\<forall>q. ReadFile q \<notin> set (snd (globDiff h a mo))))"
proof -
  have 1: "\<not> isValidGlobDiffSnapshot (GlobDiffOptions.snapshot (globDiff_options a mo)) \<longrightarrow>
        globDiff h a mo = (Inl InvalidSnapshot, [])"
    using globDiff_supplied_invalid[OF assms] by blast
  have 2: "globDiff h a mo =
          globDiff_run h (globDiff_options a mo) (globDiff_snapshotFilePath h (globDiff_options a mo))
            (as_GlobDiffSnapshot (GlobDiffOptions.snapshot (globDiff_options a mo))) \<and>
        (\<forall>q. ReadFile q \<notin> set (snd (globDiff h a mo)))"
    if v: "isValidGlobDiffSnapshot (GlobDiffOptions.snapshot (globDiff_options a mo))"
    unfolding globDiff_supplied_valid[OF v] using globDiff_run_no_read by simp
  from 1 2 show ?thesis by blast
qed

text \<open>
  An instance: a valid snapshot is used (its third path is reported deleted) and nothing
  is read; a string is rejected before any call.
\<close>

theorem globDiff_supplied_snapshot_witness:
  "truthy (jsval_of_GlobDiffSnapshot example_previous) \<and>
   isValidGlobDiffSnapshot (jsval_of_GlobDiffSnapshot example_previous) \<and>
   globDiff example_host (PatternsArg (Pattern ''*.txt''))
     (Some (no_options\<lparr>GlobDiffOptions.snapshot := jsval_of_GlobDiffSnapshot example_previous\<rparr>)) =
     (Inr \<lparr>snapshot = [(''/work/a.txt'', \<lparr>hash = ''old'', mtimeMs = Finite 100\<rparr>),
                        (''/work/b.txt'', \<lparr>hash = ''bbb'', mtimeMs = Finite 200\<rparr>)],
           changes = [\<lparr>type = Delete, filePath = ''/work/c.txt''\<rparr>]\<rparr>,
      [Globby (Pattern ''*.txt''), Stat ''/work/a.txt'', Stat ''/work/b.txt'', HashFile ''/work/b.txt'',
       WriteFile ''/work/.glob-diff.json'' ''{}'']) \<and>
   truthy (JString ''x'') \<and> \<not> isValidGlobDiffSnapshot (JString ''x'') \<and>
   globDiff example_host (PatternsArg (Pattern ''*.txt''))
     (Some (no_options\<lparr>GlobDiffOptions.snapshot := JString ''x''\<rparr>)) = (Inl InvalidSnapshot, [])"
  using globDiff_supplied_snapshot
    [of "PatternsArg (Pattern ''*.txt'')"
        "Some (no_options\<lparr>GlobDiffOptions.snapshot := jsval_of_GlobDiffSnapshot example_previous\<rparr>)"
        example_host]
    globDiff_supplied_snapshot
    [of "PatternsArg (Pattern ''*.txt'')"
        "Some (no_options\<lparr>GlobDiffOptions.snapshot := JString ''x''\<rparr>)" example_host]
  by (simp add: globDiff_eval)

text \<open>
  C7 as stated fails: \<open>null\<close> supplied as the snapshot fails validation, yet the
  operation reads the snapshot file and succeeds.
\<close>

theorem globDiff_supplied_null_counterexample:
  "\<not> isValidGlobDiffSnapshot JNull \<and>
   globDiff example_host
     (OptionsArg (no_options\<lparr>patterns := Some (Pattern ''*.txt''), GlobDiffOptions.snapshot := JNull\<rparr>)) None =
     (Inr \<lparr>snapshot = example_built,
           changes = [\<lparr>type = Create, filePath = ''/work/a.txt''\<rparr>,
                      \<lparr>type = Create, filePath = ''/work/b.txt''\<rparr>]\<rparr>,
      [ReadFile ''/work/.glob-diff.json'', Globby (Pattern ''*.txt''),
       Stat ''/work/a.txt'', Stat ''/work/b.txt'', HashFile ''/work/a.txt'', HashFile ''/work/b.txt'',
       WriteFile ''/work/.glob-diff.json'' example_text])"
  by (simp add: globDiff_eval)

text \<open>
  C8.  When no truthy \<open>snapshot\<close> option is supplied: if the snapshot file is absent,
  loading yields the empty snapshot, and the operation goes on with it; if the file is
  there and what \<open>JSON.parse\<close> makes of its content fails validation, loading and the
  operation fail with the validation error of the file.  (A file that parses is not
  empty.)
\<close>

theorem loadGlobDiffSnapshot_absent_or_malformed:
  assumes "\<not> truthy (GlobDiffOptions.snapshot (globDiff_options a mo))"
      and "p = globDiff_snapshotFilePath h (globDiff_options a mo)"
  shows
    "(fs_readFile h p = Inl ENOENT \<longrightarrow>
        loadGlobDiffSnapshot h p = (Inr [], [ReadFile p]) \<and>
        globDiff h a mo =
          (case globDiff_run h (globDiff_options a mo) p [] of
             (r, events) \<Rightarrow> (r, ReadFile p # events))) \<and>
     (\<forall>content v.
        fs_readFile h p = Inr content \<and> content \<noteq> [] \<and> JSON_parse h content = Some v \<and>
        \<not> isValidGlobDiffSnapshot v \<longrightarrow>
          loadGlobDiffSnapshot h p = (Inl InvalidSnapshotFile, [ReadFile p]) \<and>
          globDiff h a mo = (Inl InvalidSnapshotFile, [ReadFile p]))"
proof -
  have 1: "loadGlobDiffSnapshot h p = (Inr [], [ReadFile p]) \<and>
        globDiff h a mo =
          (case globDiff_run h (globDiff_options a mo) p [] of
             (r, events) \<Rightarrow> (r, ReadFile p # events))"
    if "fs_readFile h p = Inl ENOENT"
  proof -
    have l: "loadGlobDiffSnapshot h p = (Inr [], [ReadFile p])"
      using that by (rule loadGlobDiffSnapshot_failed_read)
    then show ?thesis
      unfolding globDiff_not_supplied[OF assms(1)] assms(2)[symmetric] by (simp split: prod.splits)
  qed
  have 2: "loadGlobDiffSnapshot h p = (Inl InvalidSnapshotFile, [ReadFile p]) \<and>
          globDiff h a mo = (Inl InvalidSnapshotFile, [ReadFile p])"
    if "fs_readFile h p = Inr content" "content \<noteq> []" "JSON_parse h content = Some v"
       "\<not> isValidGlobDiffSnapshot v" for content v
  proof -
    have l: "loadGlobDiffSnapshot h p = (Inl InvalidSnapshotFile, [ReadFile p])"
      using that by (rule loadGlobDiffSnapshot_malformed)
    then show ?thesis
      unfolding globDiff_not_supplied[OF assms(1)] assms(2)[symmetric] by simp
  qed
  from 1 2 show ?thesis by blast
qed

text \<open>
  An instance: without a snapshot file everything is reported created; a file whose one
  entry has no \<open>mtimeMs\<close> is refused.
\<close>

theorem loadGlobDiffSnapshot_absent_or_malformed_witness:
  "\<not> truthy (GlobDiffOptions.snapshot (globDiff_options (PatternsArg (Pattern ''*.txt'')) None)) \<and>
   globDiff_snapshotFilePath example_host (globDiff_options (PatternsArg (Pattern ''*.txt'')) None) =
     ''/work/.glob-diff.json'' \<and>
   fs_readFile example_host ''/work/.glob-diff.json'' = Inl ENOENT \<and>
   loadGlobDiffSnapshot example_host ''/work/.glob-diff.json'' =
     (Inr [], [ReadFile ''/work/.glob-diff.json'']) \<and>
   fst (globDiff example_host (PatternsArg (Pattern ''*.txt'')) None) =
     Inr \<lparr>snapshot = example_built,
           changes = [\<lparr>type = Create, filePath = ''/work/a.txt''\<rparr>,
                      \<lparr>type = Create, filePath = ''/work/b.txt''\<rparr>]\<rparr> \<and>
   fs_readFile malformed_file_host ''/work/.glob-diff.json'' = Inr ''{/work/a.txt:{hash:aaa}}'' \<and>
   JSON_parse malformed_file_host ''{/work/a.txt:{hash:aaa}}'' =
     Some (JObject [(''/work/a.txt'', JObject [(''hash'', JString ''aaa'')])]) \<and>
   \<not> isValidGlobDiffSnapshot (JObject [(''/work/a.txt'', JObject [(''hash'', JString ''aaa'')])]) \<and>
   globDiff malformed_file_host (PatternsArg (Pattern ''*.txt'')) None =
     (Inl InvalidSnapshotFile, [ReadFile ''/work/.glob-diff.json''])"
  using loadGlobDiffSnapshot_absent_or_malformed
    [of "PatternsArg (Pattern ''*.txt'')" None "''/work/.glob-diff.json''" example_host]
    loadGlobDiffSnapshot_absent_or_malformed
    [of "PatternsArg (Pattern ''*.txt'')" None "''/work/.glob-diff.json''" malformed_file_host]
  by (simp add: globDiff_eval)

text \<open>
  C9.  For patterns \<open>p\<close> and an options object without \<open>patterns\<close>, the call with the
  two arguments gives what the call with the one options object, extended with
  \<open>patterns = p\<close>, gives: the same result and the same file-system calls.
\<close>

theorem globDiff_call_shapes:
  assumes "patterns opts = None"
  shows "globDiff h (PatternsArg p) (Some opts) = globDiff h (OptionsArg (opts\<lparr>patterns := Some p\<rparr>)) None"
proof -
  have "isGlobDiffPatterns (PatternsArg p)" by (cases p) simp_all
  then have "globDiff_options (PatternsArg p) (Some opts) = opts\<lparr>patterns := Some p\<rparr>"
    using assms by (simp add: globDiff_options_def spread_options_def)
  moreover have "globDiff_options (OptionsArg (opts\<lparr>patterns := Some p\<rparr>)) None = opts\<lparr>patterns := Some p\<rparr>"
    by (simp add: globDiff_options_def)
  ultimately show ?thesis by (simp add: globDiff_def)
qed

text \<open>
  An instance, with a list of two patterns and \<open>saveSnapshot: false\<close>.
\<close>

theorem globDiff_call_shapes_witness:
  "patterns (no_options\<lparr>saveSnapshot := Some False\<rparr>) = None \<and>
   globDiff example_host (PatternsArg (Patterns [''*.txt'', ''!c.txt''])) (Some (no_options\<lparr>saveSnapshot := Some False\<rparr>)) =
   globDiff example_host
     (OptionsArg (no_options\<lparr>saveSnapshot := Some False, patterns := Some (Patterns [''*.txt'', ''!c.txt''])\<rparr>)) None \<and>
   globDiff example_host (PatternsArg (Patterns [''*.txt'', ''!c.txt''])) (Some (no_options\<lparr>saveSnapshot := Some False\<rparr>)) =
     (Inr \<lparr>snapshot = example_built,
           changes = [\<lparr>type = Create, filePath = ''/work/a.txt''\<rparr>,
                      \<lparr>type = Create, filePath = ''/work/b.txt''\<rparr>]\<rparr>,
      [ReadFile ''/work/.glob-diff.json'', Globby (Patterns [''*.txt'', ''!c.txt'']),
       Stat ''/work/a.txt'', Stat ''/work/b.txt'', HashFile ''/work/a.txt'', HashFile ''/work/b.txt''])"
  using globDiff_call_shapes
    [of "no_options\<lparr>saveSnapshot := Some False\<rparr>" example_host "Patterns [''*.txt'', ''!c.txt'']"]
  by (simp add: globDiff_eval)

text \<open>
  C10.  Whatever error the read of the snapshot file fails with, and also when the file
  is empty, loading yields the empty snapshot and no error; the operation then goes on
  with the empty previous snapshot.
\<close>

theorem loadGlobDiffSnapshot_any_read_failure:
  "(\<forall>e. fs_readFile h p = Inl e \<longrightarrow> loadGlobDiffSnapshot h p = (Inr [], [ReadFile p])) \<and>
   (fs_readFile h p = Inr [] \<longrightarrow> loadGlobDiffSnapshot h p = (Inr [], [ReadFile p])) \<and>
   (\<not> truthy (GlobDiffOptions.snapshot (globDiff_options a mo)) \<and>
    p = globDiff_snapshotFilePath h (globDiff_options a mo) \<and>
    ((\<exists>e. fs_readFile h p = Inl e) \<or> fs_readFile h p = Inr []) \<longrightarrow>
      globDiff h a mo =
        (case globDiff_run h (globDiff_options a mo) p [] of
           (r, events) \<Rightarrow> (r, ReadFile p # events)))"
proof -
  have 1: "\<forall>e. fs_readFile h p = Inl e \<longrightarrow> loadGlobDiffSnapshot h p = (Inr [], [ReadFile p])"
    by (simp add: loadGlobDiffSnapshot_failed_read)
  have 2: "fs_readFile h p = Inr [] \<longrightarrow> loadGlobDiffSnapshot h p = (Inr [], [ReadFile p])"
    by (simp add: loadGlobDiffSnapshot_empty_content)
  have 3: "globDiff h a mo =
        (case globDiff_run h (globDiff_options a mo) p [] of
           (r, events) \<Rightarrow> (r, ReadFile p # events))"
    if ns: "\<not> truthy (GlobDiffOptions.snapshot (globDiff_options a mo))"
      and p: "p = globDiff_snapshotFilePath h (globDiff_options a mo)"
      and rd: "(\<exists>e. fs_readFile h p = Inl e) \<or> fs_readFile h p = Inr []"
  proof -
    have "loadGlobDiffSnapshot h p = (Inr [], [ReadFile p])" using rd 1 2 by blast
    then show ?thesis
      unfolding globDiff_not_supplied[OF ns] p[symmetric] by (simp split: prod.splits)
  qed
  from 1 2 3 show ?thesis by blast
qed

text \<open>
  An instance: a snapshot file that may not be read, and an empty one, both load as the
  empty snapshot; the operation then reports every file created.
\<close>

theorem loadGlobDiffSnapshot_any_read_failure_witness:
  "\<not> truthy (GlobDiffOptions.snapshot (globDiff_options (PatternsArg (Pattern ''*.txt'')) None)) \<and>
   globDiff_snapshotFilePath unreadable_host (globDiff_options (PatternsArg (Pattern ''*.txt'')) None) =
     ''/work/.glob-diff.json'' \<and>
   fs_readFile unreadable_host ''/work/.glob-diff.json'' = Inl EACCES \<and>
   loadGlobDiffSnapshot unreadable_host ''/work/.glob-diff.json'' =
     (Inr [], [ReadFile ''/work/.glob-diff.json'']) \<and>
   fs_readFile empty_file_host ''/work/.glob-diff.json'' = Inr [] \<and>
   loadGlobDiffSnapshot empty_file_host ''/work/.glob-diff.json'' =
     (Inr [], [ReadFile ''/work/.glob-diff.json'']) \<and>
   fst (globDiff unreadable_host (PatternsArg (Pattern ''*.txt'')) None) =
     Inr \<lparr>snapshot = example_built,
           changes = [\<lparr>type = Create, filePath = ''/work/a.txt''\<rparr>,
                      \<lparr>type = Create, filePath = ''/work/b.txt''\<rparr>]\<rparr>"
  using loadGlobDiffSnapshot_any_read_failure
    [of unreadable_host "''/work/.glob-diff.json''" "PatternsArg (Pattern ''*.txt'')" None]
    loadGlobDiffSnapshot_any_read_failure
    [of empty_file_host "''/work/.glob-diff.json''" "PatternsArg (Pattern ''*.txt'')" None]
  by (simp add: globDiff_eval)

text \<open>
  C6.  Diffing a snapshot against one with the same keys and equal hashes gives no
  change record.  Such is the snapshot rebuilt from a snapshot \<open>s\<close> whose keys are the
  resolved paths and whose times are those the files still have, when \<open>alwaysHash\<close> is
  not set: the rebuild hashes nothing, and its diff against \<open>s\<close> is empty.  And for two
  runs: let a first run, without a \<open>snapshot\<close> option and
  with \<open>saveSnapshot\<close> not false, succeed; its last file-system call is then the write of
  its snapshot to the snapshot file.  Let the second run find there what was written
  (a text that \<open>JSON.parse\<close> reads back as that snapshot) and everything else as it was:
  the same paths, times and digests.  Then the second run succeeds, with the same
  snapshot and an empty list of changes.
\<close>

theorem globDiff_idempotent:
  "(set (Object_keys s') = set (Object_keys s) \<and>
    (\<forall>p \<in> set (Object_keys s). map_option hash (map_of s' p) = map_option hash (map_of s p)) \<longrightarrow>
      getGlobDiffChanges s s' = []) \<and>
   (resolveFilePaths h fs pats = (Inr ps, evs0) \<and>
    set ps = set (Object_keys s) \<and>
    ah \<noteq> Some True \<and>
    (\<forall>q \<in> set ps. \<exists>e m. map_of s q = Some e \<and> fs_stat h q = Inr m \<and>
        strict_equals_number (mtimeMs e) m) \<longrightarrow>
      (\<exists>rebuilt evs1.
         getGlobDiffSnapshot h ah cw fs pats (Some s) = (Inr rebuilt, evs1) \<and>
         (\<forall>q. HashFile q \<notin> set evs1) \<and>
         getGlobDiffChanges s rebuilt = [])) \<and>
   (globDiff h a mo = (Inr res, evs) \<and>
    \<not> truthy (GlobDiffOptions.snapshot (globDiff_options a mo)) \<and>
    saveSnapshot (globDiff_options a mo) \<noteq> Some False \<and>
    written = JSON_stringify h (snapshot res) \<and>
    written \<noteq> [] \<and>
    JSON_parse h written = Some (jsval_of_GlobDiffSnapshot (snapshot res)) \<and>
    p = globDiff_snapshotFilePath h (globDiff_options a mo) \<longrightarrow>
      last evs = WriteFile p written \<and>
      (\<exists>evs2.
         globDiff (h\<lparr>fs_readFile := (fs_readFile h)(p := Inr written)\<rparr>) a mo =
           (Inr \<lparr>snapshot = snapshot res, changes = []\<rparr>, evs2)))"
proof -
  have 1: "getGlobDiffChanges s s' = []"
    if "set (Object_keys s') = set (Object_keys s)"
       "\<forall>p \<in> set (Object_keys s). map_option hash (map_of s' p) = map_option hash (map_of s p)"
    using that by (rule getGlobDiffChanges_unchanged)
  have 2: "last evs = WriteFile p written \<and>
      (\<exists>evs2.
         globDiff (h\<lparr>fs_readFile := (fs_readFile h)(p := Inr written)\<rparr>) a mo =
           (Inr \<lparr>snapshot = snapshot res, changes = []\<rparr>, evs2))"
    if run1: "globDiff h a mo = (Inr res, evs)"
      and ns: "\<not> truthy (GlobDiffOptions.snapshot (globDiff_options a mo))"
      and sv: "saveSnapshot (globDiff_options a mo) \<noteq> Some False"
      and wr: "written = JSON_stringify h (snapshot res)"
      and ne: "written \<noteq> []"
      and rt: "JSON_parse h written = Some (jsval_of_GlobDiffSnapshot (snapshot res))"
      and p: "p = globDiff_snapshotFilePath h (globDiff_options a mo)"
  proof -
    let ?o = "globDiff_options a mo"
    let ?h2 = "h\<lparr>fs_readFile := (fs_readFile h)(p := Inr written)\<rparr>"
    obtain x e0 where l: "loadGlobDiffSnapshot h p = (x, e0)" by (cases "loadGlobDiffSnapshot h p")
    obtain y e1 where g: "globDiff_run h ?o p (case x of Inr prev \<Rightarrow> prev | Inl e \<Rightarrow> []) = (y, e1)"
      by (cases "globDiff_run h ?o p (case x of Inr prev \<Rightarrow> prev | Inl e \<Rightarrow> [])")
    from run1 l g obtain prev0 where x: "x = Inr prev0" and y: "y = Inr res" and e: "evs = e0 @ e1"
      unfolding globDiff_not_supplied[OF ns] p[symmetric] by (cases x) auto
    from g x y have g': "globDiff_run h ?o p prev0 = (Inr res, e1)" by simp
    from globDiff_run_Inr[OF g'] sv wr obtain ev' where "e1 = ev' @ [WriteFile p written]" by auto
    with e have last: "last evs = WriteFile p written" by simp
    have p2: "globDiff_snapshotFilePath ?h2 ?o = p" using p by (simp add: globDiff_snapshotFilePath_def)
    have l2: "loadGlobDiffSnapshot ?h2 p = (Inr (snapshot res), [ReadFile p])"
      using loadGlobDiffSnapshot_wellformed[of ?h2 p written "jsval_of_GlobDiffSnapshot (snapshot res)"]
        ne rt by (simp add: isValid_jsval_of as_jsval_of)
    from globDiff_run_rerun[OF g', of "(fs_readFile h)(p := Inr written)"] obtain e2 where
      "globDiff_run ?h2 ?o p (snapshot res) = (Inr \<lparr>snapshot = snapshot res, changes = []\<rparr>, e2)" by blast
    then have "globDiff ?h2 a mo = (Inr \<lparr>snapshot = snapshot res, changes = []\<rparr>, [ReadFile p] @ e2)"
      unfolding globDiff_not_supplied[OF ns] p2 l2 by simp
    with last show ?thesis by blast
  qed
  have 3: "\<exists>rebuilt evs1.
         getGlobDiffSnapshot h ah cw fs pats (Some s) = (Inr rebuilt, evs1) \<and>
         (\<forall>q. HashFile q \<notin> set evs1) \<and>
         getGlobDiffChanges s rebuilt = []"
    if "resolveFilePaths h fs pats = (Inr ps, evs0)" "set ps = set (Object_keys s)"
       "ah \<noteq> Some True"
       "\<forall>q \<in> set ps. \<exists>e m. map_of s q = Some e \<and> fs_stat h q = Inr m \<and>
           strict_equals_number (mtimeMs e) m"
    using that by (rule getGlobDiffSnapshot_unchanged)
  from 1 2 3 show ?thesis by blast
qed

text \<open>
  An instance: the first run over the two files reports both created and writes the
  snapshot; the second run reads it, hashes nothing, and reports no change.
\<close>

theorem globDiff_idempotent_witness:
  "globDiff example_host (PatternsArg (Pattern ''*.txt'')) None =
     (Inr \<lparr>snapshot = example_built,
           changes = [\<lparr>type = Create, filePath = ''/work/a.txt''\<rparr>,
                      \<lparr>type = Create, filePath = ''/work/b.txt''\<rparr>]\<rparr>,
      [ReadFile ''/work/.glob-diff.json'', Globby (Pattern ''*.txt''),
       Stat ''/work/a.txt'', Stat ''/work/b.txt'', HashFile ''/work/a.txt'', HashFile ''/work/b.txt'',
       WriteFile ''/work/.glob-diff.json'' example_text]) \<and>
   \<not> truthy (GlobDiffOptions.snapshot (globDiff_options (PatternsArg (Pattern ''*.txt'')) None)) \<and>
   saveSnapshot (globDiff_options (PatternsArg (Pattern ''*.txt'')) None) \<noteq> Some False \<and>
   JSON_stringify example_host example_built = example_text \<and>
   example_text \<noteq> [] \<and>
   JSON_parse example_host example_text = Some (jsval_of_GlobDiffSnapshot example_built) \<and>
   globDiff_snapshotFilePath example_host (globDiff_options (PatternsArg (Pattern ''*.txt'')) None) =
     ''/work/.glob-diff.json'' \<and>
   globDiff second_run_host (PatternsArg (Pattern ''*.txt'')) None =
     (Inr \<lparr>snapshot = example_built, changes = []\<rparr>,
      [ReadFile ''/work/.glob-diff.json'', Globby (Pattern ''*.txt''),
       Stat ''/work/a.txt'', Stat ''/work/b.txt'',
       WriteFile ''/work/.glob-diff.json'' example_text])"
  using globDiff_idempotent
    [where h = example_host and a = "PatternsArg (Pattern ''*.txt'')" and mo = None
       and res = "\<lparr>snapshot = example_built,
                  changes = [\<lparr>type = Create, filePath = ''/work/a.txt''\<rparr>,
                             \<lparr>type = Create, filePath = ''/work/b.txt''\<rparr>]\<rparr>"
       and evs = "[ReadFile ''/work/.glob-diff.json'', Globby (Pattern ''*.txt''),
          Stat ''/work/a.txt'', Stat ''/work/b.txt'', HashFile ''/work/a.txt'', HashFile ''/work/b.txt'',
          WriteFile ''/work/.glob-diff.json'' example_text]"
       and written = example_text and p = "''/work/.glob-diff.json''"
       and s = example_built and s' = example_built]
  by (simp add: globDiff_eval)

end

